theory Spec2Isabelle
  imports Main "HOL-Library.Sublist"
begin

section \<open>Python values, dictionaries and strings\<close>

text \<open>
  Posts, comments and chunks are Python dictionaries whose values come from the
  PostgreSQL driver: \<open>None\<close> for NULL, \<open>str\<close> for text columns, \<open>int\<close> for
  integer columns and \<open>datetime\<close> for timestamps. A \<open>datetime\<close> is carried with
  its \<open>str()\<close> rendering; it is always truthy, is not a \<open>str\<close> and cannot be
  sliced. A Python \<open>str\<close> is modelled as a \<open>string\<close>, one \<open>char\<close> per character.
\<close>

datatype pyval = PyNone | PyStr string | PyInt int | PyDatetime string

datatype error = TypeError | DatabaseError

type_synonym pydict = "string \<rightharpoonup> pyval"

text \<open>\<open>d.get(key)\<close> and \<open>d.get(key, default)\<close>.\<close>

definition get :: "pydict \<Rightarrow> string \<Rightarrow> pyval" where
  "get d k = (case d k of None \<Rightarrow> PyNone | Some v \<Rightarrow> v)"

definition get_default :: "pydict \<Rightarrow> string \<Rightarrow> pyval \<Rightarrow> pyval" where
  "get_default d k dflt = (case d k of None \<Rightarrow> dflt | Some v \<Rightarrow> v)"

text \<open>Truth value of an object in a condition.\<close>

fun truthy :: "pyval \<Rightarrow> bool" where
  "truthy PyNone = False"
| "truthy (PyStr s) = (s \<noteq> [])"
| "truthy (PyInt i) = (i \<noteq> 0)"
| "truthy (PyDatetime s) = True"

text \<open>Decimal rendering of an integer, as \<open>str(i)\<close> gives it.\<close>

definition digit_char :: "nat \<Rightarrow> char" where
  "digit_char d = char_of (48 + d)"

function str_of_nat :: "nat \<Rightarrow> string" where
  "str_of_nat n = (if n < 10 then [digit_char n] else str_of_nat (n div 10) @ [digit_char (n mod 10)])"
  by pat_completeness auto
termination
  by (relation "measure id") auto

definition str_of_int :: "int \<Rightarrow> string" where
  "str_of_int i = (if i < 0 then CHR ''-'' # str_of_nat (nat (- i)) else str_of_nat (nat i))"

text \<open>The text an f-string inserts for \<open>{v}\<close>.\<close>

fun py_str :: "pyval \<Rightarrow> string" where
  "py_str PyNone = ''None''"
| "py_str (PyStr s) = s"
| "py_str (PyInt i) = str_of_int i"
| "py_str (PyDatetime s) = s"

text \<open>\<open>v[:n]\<close> for \<open>n \<ge> 0\<close>: only a \<open>str\<close> can be sliced here, anything else raises TypeError.\<close>

fun slice_to :: "pyval \<Rightarrow> nat \<Rightarrow> error + pyval" where
  "slice_to (PyStr s) n = Inr (PyStr (take n s))"
| "slice_to v n = Inl TypeError"

text \<open>\<open>xs[:k]\<close> on a list, for any integer \<open>k\<close>: a negative \<open>k\<close> counts from the end.\<close>

definition list_slice_to :: "'a list \<Rightarrow> int \<Rightarrow> 'a list" where
  "list_slice_to xs k = (if 0 \<le> k then take (nat k) xs else take (nat (int (length xs) + k)) xs)"

text \<open>\<open>sep.join(xs)\<close> on a list of \<open>str\<close>.\<close>

fun join :: "string \<Rightarrow> string list \<Rightarrow> string" where
  "join sep [] = []"
| "join sep [x] = x"
| "join sep (x # y # ys) = x @ sep @ join sep (y # ys)"

text \<open>\<open>sep.join(vs)\<close> on a list of objects: every item must be a \<open>str\<close>.\<close>

fun strs_of :: "pyval list \<Rightarrow> error + string list" where
  "strs_of [] = Inr []"
| "strs_of (PyStr s # vs) = (case strs_of vs of Inl e \<Rightarrow> Inl e | Inr ss \<Rightarrow> Inr (s # ss))"
| "strs_of (v # vs) = Inl TypeError"

definition join_vals :: "string \<Rightarrow> pyval list \<Rightarrow> error + string" where
  "join_vals sep vs = (case strs_of vs of Inl e \<Rightarrow> Inl e | Inr ss \<Rightarrow> Inr (join sep ss))"

text \<open>
  The characters \<open>str.split()\<close> treats as whitespace, among the 256 of \<open>char\<close>:
  tab, line feed, vertical tab, form feed, carriage return, the four separators
  0x1C-0x1F, space, next line (0x85) and no-break space (0xA0).
\<close>

definition isspace :: "char \<Rightarrow> bool" where
  "isspace c = (c \<in> set [CHR 0x09, CHR 0x0A, CHR 0x0B, CHR 0x0C, CHR 0x0D,
                           CHR 0x1C, CHR 0x1D, CHR 0x1E, CHR 0x1F, CHR 0x20, CHR 0x85, CHR 0xA0])"

text \<open>
  \<open>text.split()\<close>: the maximal runs of non-whitespace characters, in order.
  \<open>split_from w s\<close> scans \<open>s\<close> with \<open>w\<close> the word read so far.
\<close>

fun split_from :: "string \<Rightarrow> string \<Rightarrow> string list" where
  "split_from w [] = (if w = [] then [] else [w])"
| "split_from w (c # cs) =
     (if isspace c then (if w = [] then split_from [] cs else w # split_from [] cs)
      else split_from (w @ [c]) cs)"

definition str_split :: "string \<Rightarrow> string list" where
  "str_split s = split_from [] s"

section \<open>chunk_generator.py\<close>

text \<open>The chunk dictionary \<open>generate_chunk\<close> returns: always these four keys.\<close>

record chunk =
  post_id :: pyval
  timestamp :: pyval
  full_chunk :: string
  engagement_score :: int

definition DELIMITER :: string where
  "DELIMITER = [CHR 0x0A, CHR 0x0A] @ ''---'' @ [CHR 0x0A, CHR 0x0A]"

text \<open>
  \<open>author_prefix = (post.get('author', '')[:5]) if post.get('author') else ''\<close>
\<close>

definition author_prefix :: "pydict \<Rightarrow> error + pyval" where
  "author_prefix post =
     (if truthy (get post ''author'') then slice_to (get_default post ''author'' (PyStr [])) 5
      else Inr (PyStr []))"

definition metadata :: "pydict \<Rightarrow> error + string" where
  "metadata post =
     (case author_prefix post of
        Inl e \<Rightarrow> Inl e
      | Inr ap \<Rightarrow> Inr (''metadata: [Post_id: '' @ py_str (get_default post ''post_id'' (PyStr [])) @
                       '' | Timestamp: '' @ py_str (get_default post ''timestamp'' (PyStr [])) @
                       '' | Author: '' @ py_str ap @ '']''))"

text \<open>The loop over \<open>comments[1:]\<close> that collects the truthy comment texts.\<close>

fun other_comments_texts :: "pyval list \<Rightarrow> pydict list \<Rightarrow> pyval list" where
  "other_comments_texts acc [] = acc"
| "other_comments_texts acc (comment # rest) =
     (let comment_text = get_default comment ''comment_texts'' (PyStr [])
      in if truthy comment_text then other_comments_texts (acc @ [comment_text]) rest
         else other_comments_texts acc rest)"

text \<open>
  The list \<open>components\<close> as it stands before the final join: sections 1 to 5 of
  \<open>generate_chunk\<close>, appended in the order of the source.
\<close>

definition title_step :: "pydict \<Rightarrow> string list \<Rightarrow> string list" where
  "title_step post components =
     (if truthy (get post ''title'')
      then components @ [''Title: '' @ py_str (get post ''title'')]
      else components)"

definition question_step :: "pydict \<Rightarrow> string list \<Rightarrow> string list" where
  "question_step post components =
     (if truthy (get post ''post_texts'')
      then components @ [''Question (priority 1): '' @ py_str (get post ''post_texts'')]
      else components)"

definition answer_step :: "pydict list \<Rightarrow> string list \<Rightarrow> string list" where
  "answer_step comments components =
     (if comments \<noteq> [] \<and> length comments > 0
      then (let first_comment = get_default (comments ! 0) ''comment_texts'' (PyStr [])
            in if truthy first_comment
               then components @ [''Important answer (priority 2): '' @ py_str first_comment]
               else components)
      else components)"

definition others_step :: "pydict list \<Rightarrow> string list \<Rightarrow> error + string list" where
  "others_step comments components =
     (if comments \<noteq> [] \<and> length comments > 1
      then (let texts = other_comments_texts [] (drop 1 comments)
            in if texts \<noteq> []
               then (case join_vals DELIMITER texts of
                       Inl e \<Rightarrow> Inl e
                     | Inr other_comments_concat \<Rightarrow>
                         Inr (components @ [''Other comments (priority 3): '' @ other_comments_concat]))
               else Inr components)
      else Inr components)"

definition components :: "pydict \<Rightarrow> pydict list \<Rightarrow> error + string list" where
  "components post comments =
     (case metadata post of
        Inl e \<Rightarrow> Inl e
      | Inr m \<Rightarrow> others_step comments (answer_step comments (question_step post (title_step post [m]))))"

text \<open>\<open>full_text = self.DELIMITER.join(components)\<close>\<close>

definition full_text :: "pydict \<Rightarrow> pydict list \<Rightarrow> error + string" where
  "full_text post comments =
     (case components post comments of Inl e \<Rightarrow> Inl e | Inr cs \<Rightarrow> Inr (join DELIMITER cs))"

definition truncate_to_words :: "string \<Rightarrow> int \<Rightarrow> string" where
  "truncate_to_words text max_words =
     (if text = [] then []
      else (let words = str_split text
            in if int (length words) \<le> max_words then text
               else join '' '' (list_slice_to words max_words)))"

definition generate_chunk :: "int \<Rightarrow> pydict \<Rightarrow> pydict list \<Rightarrow> error + chunk" where
  "generate_chunk chunk_size post comments =
     (case full_text post comments of
        Inl e \<Rightarrow> Inl e
      | Inr text \<Rightarrow>
          Inr \<lparr> post_id = get post ''post_id'',
                timestamp = get post ''timestamp'',
                full_chunk = truncate_to_words text chunk_size,
                engagement_score = int (length comments) \<rparr>)"

text \<open>
  \<open>generate_chunks_batch\<close>: the loop appends each chunk; an exception of
  \<open>generate_chunk\<close> is caught, logged, and the loop continues with the next pair.
\<close>

fun chunks_loop :: "int \<Rightarrow> chunk list \<Rightarrow> (pydict \<times> pydict list) list \<Rightarrow> chunk list" where
  "chunks_loop chunk_size chunks [] = chunks"
| "chunks_loop chunk_size chunks ((post, comments) # rest) =
     (case generate_chunk chunk_size post comments of
        Inr chunk \<Rightarrow> chunks_loop chunk_size (chunks @ [chunk]) rest
      | Inl e \<Rightarrow> chunks_loop chunk_size chunks rest)"

definition generate_chunks_batch :: "int \<Rightarrow> (pydict \<times> pydict list) list \<Rightarrow> chunk list" where
  "generate_chunks_batch chunk_size posts_with_comments = chunks_loop chunk_size [] posts_with_comments"

section \<open>database_writer.py\<close>

subsection \<open>The write port\<close>

text \<open>
  The psycopg2 connection and its cursor are outside the repository. They are
  modelled as a transactional store: \<open>pending\<close> holds the rows inserted in the open
  transaction, \<open>committed\<close> the rows made durable through this connection.
  Whether a call raises \<open>psycopg2.Error\<close> is decided by the server, not by the
  writer: \<open>execute_ok i\<close> tells whether the \<open>i\<close>-th call of \<open>cursor.execute\<close>
  succeeds and \<open>commit_ok i\<close> whether the \<open>i\<close>-th call of \<open>connection.commit\<close>
  does (both counted from 0); \<open>executes\<close> and \<open>commits\<close> count the calls made so
  far. \<open>connection.rollback()\<close> discards the open transaction and does not raise.
\<close>

record connection =
  execute_ok :: "nat \<Rightarrow> bool"
  commit_ok :: "nat \<Rightarrow> bool"
  executes :: nat
  commits :: nat
  pending :: "chunk list"
  committed :: "chunk list"
  closed :: bool

text \<open>\<open>cursor.execute(insert_query, row)\<close>\<close>

definition cursor_execute :: "connection \<Rightarrow> chunk \<Rightarrow> (error \<times> connection) + connection" where
  "cursor_execute c row =
     (if execute_ok c (executes c)
      then Inr (c\<lparr>executes := Suc (executes c), pending := pending c @ [row]\<rparr>)
      else Inl (DatabaseError, c\<lparr>executes := Suc (executes c)\<rparr>))"

text \<open>\<open>connection.commit()\<close>\<close>

definition connection_commit :: "connection \<Rightarrow> (error \<times> connection) + connection" where
  "connection_commit c =
     (if commit_ok c (commits c)
      then Inr (c\<lparr>commits := Suc (commits c), committed := committed c @ pending c, pending := []\<rparr>)
      else Inl (DatabaseError, c\<lparr>commits := Suc (commits c)\<rparr>))"

text \<open>\<open>connection.rollback()\<close>\<close>

definition connection_rollback :: "connection \<Rightarrow> connection" where
  "connection_rollback c = c\<lparr>pending := []\<rparr>"

text \<open>\<open>cursor.close(); connection.close()\<close>: an open transaction is discarded.\<close>

definition connection_close :: "connection \<Rightarrow> connection" where
  "connection_close c = c\<lparr>pending := [], closed := True\<rparr>"

subsection \<open>DatabaseWriter\<close>

text \<open>The fields of a \<open>DatabaseWriter\<close> once \<open>connect()\<close> has returned.\<close>

record writer =
  batch_commit_size :: int
  connection :: connection
  insert_count :: int
  total_inserted :: int
  total_failed :: int

text \<open>
  \<open>DatabaseWriter(db_config, batch_commit_size)\<close> followed by \<open>connect()\<close>, on a
  server that behaves as \<open>ex_ok\<close> and \<open>cm_ok\<close> say.
\<close>

definition new_writer :: "int \<Rightarrow> (nat \<Rightarrow> bool) \<Rightarrow> (nat \<Rightarrow> bool) \<Rightarrow> writer" where
  "new_writer n ex_ok cm_ok =
     \<lparr> batch_commit_size = n,
       connection = \<lparr> execute_ok = ex_ok, commit_ok = cm_ok, executes = 0, commits = 0,
                      pending = [], committed = [], closed = False \<rparr>,
       insert_count = 0, total_inserted = 0, total_failed = 0 \<rparr>"

text \<open>
  \<open>_commit\<close>: on success the counters are updated; on \<open>psycopg2.Error\<close> the
  transaction is rolled back and the exception is raised again.
\<close>

definition commit :: "writer \<Rightarrow> (error \<times> writer) + writer" where
  "commit w =
     (case connection_commit (connection w) of
        Inr c \<Rightarrow> Inr (w\<lparr>connection := c,
                         total_inserted := total_inserted w + insert_count w,
                         insert_count := 0\<rparr>)
      | Inl (e, c) \<Rightarrow> Inl (e, w\<lparr>connection := connection_rollback c\<rparr>))"

text \<open>The \<open>except psycopg2.Error\<close> clause of \<open>insert_chunk\<close>.\<close>

definition insert_failed :: "writer \<Rightarrow> bool \<times> writer" where
  "insert_failed w =
     (False, w\<lparr>connection := connection_rollback (connection w),
               total_failed := total_failed w + 1\<rparr>)"

text \<open>
  \<open>insert_chunk\<close>: the \<open>try\<close> block holds the insert, the increment and the
  checkpoint \<open>self._commit()\<close>, so an exception of either call reaches the
  \<open>except\<close> clause.
\<close>

definition insert_chunk :: "writer \<Rightarrow> chunk \<Rightarrow> bool \<times> writer" where
  "insert_chunk w chunk =
     (case cursor_execute (connection w) chunk of
        Inl (e, c) \<Rightarrow> insert_failed (w\<lparr>connection := c\<rparr>)
      | Inr c \<Rightarrow>
          (let w1 = w\<lparr>connection := c, insert_count := insert_count w + 1\<rparr>
           in if insert_count w1 \<ge> batch_commit_size w1
              then (case commit w1 of
                      Inl (e, w2) \<Rightarrow> insert_failed w2
                    | Inr w2 \<Rightarrow> (True, w2))
              else (True, w1)))"

record stats =
  total :: int
  success :: int
  failed :: int

text \<open>The \<open>for chunk in chunks\<close> loop of \<open>insert_chunks_batch\<close> with its two tallies.\<close>

fun insert_loop :: "writer \<Rightarrow> chunk list \<Rightarrow> int \<Rightarrow> int \<Rightarrow> writer \<times> int \<times> int" where
  "insert_loop w [] success_count failed_count = (w, success_count, failed_count)"
| "insert_loop w (chunk # rest) success_count failed_count =
     (case insert_chunk w chunk of
        (True, w') \<Rightarrow> insert_loop w' rest (success_count + 1) failed_count
      | (False, w') \<Rightarrow> insert_loop w' rest success_count (failed_count + 1))"

definition insert_chunks_batch :: "writer \<Rightarrow> chunk list \<Rightarrow> (error \<times> writer) + (stats \<times> writer)" where
  "insert_chunks_batch w chunks =
     (case insert_loop w chunks 0 0 of
        (w1, success_count, failed_count) \<Rightarrow>
          (let st = \<lparr> total = int (length chunks), success = success_count, failed = failed_count \<rparr>
           in if insert_count w1 > 0
              then (case commit w1 of
                      Inl (e, w2) \<Rightarrow> Inl (e, w2)
                    | Inr w2 \<Rightarrow> Inr (st, w2))
              else Inr (st, w1)))"

text \<open>\<open>disconnect\<close>: the final commit comes first; if it raises, nothing is closed.\<close>

definition disconnect :: "writer \<Rightarrow> (error \<times> writer) + writer" where
  "disconnect w =
     (if insert_count w > 0
      then (case commit w of
              Inl (e, w1) \<Rightarrow> Inl (e, w1)
            | Inr w1 \<Rightarrow> Inr (w1\<lparr>connection := connection_close (connection w1)\<rparr>))
      else Inr (w\<lparr>connection := connection_close (connection w)\<rparr>))"

text \<open>\<open>get_statistics\<close>: \<open>(total_inserted, total_failed)\<close>.\<close>

definition get_statistics :: "writer \<Rightarrow> int \<times> int" where
  "get_statistics w = (total_inserted w, total_failed w)"

section \<open>Notions used to state the properties\<close>

text \<open>A word, as \<open>split()\<close> returns it: non-empty and free of whitespace.\<close>

definition is_word :: "string \<Rightarrow> bool" where
  "is_word w = (w \<noteq> [] \<and> (\<forall>c \<in> set w. \<not> isspace c))"

text \<open>The text of a comment, as both comment sections read it.\<close>

definition comment_text :: "pydict \<Rightarrow> pyval" where
  "comment_text comment = get_default comment ''comment_texts'' (PyStr [])"

text \<open>
  The four optional sections as the specification words them: each is the empty
  list when its source datum is not truthy, and one formatted line otherwise.
\<close>

definition title_section :: "pydict \<Rightarrow> string list" where
  "title_section post =
     (if truthy (get post ''title'') then [''Title: '' @ py_str (get post ''title'')] else [])"

definition question_section :: "pydict \<Rightarrow> string list" where
  "question_section post =
     (if truthy (get post ''post_texts'')
      then [''Question (priority 1): '' @ py_str (get post ''post_texts'')] else [])"

definition answer_section :: "pydict list \<Rightarrow> string list" where
  "answer_section comments =
     (case comments of
        [] \<Rightarrow> []
      | first # others \<Rightarrow>
          if truthy (comment_text first)
          then [''Important answer (priority 2): '' @ py_str (comment_text first)] else [])"

definition others_section :: "pydict list \<Rightarrow> string list" where
  "others_section comments =
     (let texts = filter truthy (map comment_text (tl comments))
      in if texts = [] then []
         else [''Other comments (priority 3): '' @ join DELIMITER (map py_str texts)])"

text \<open>
  The author field as the specification words it: the first five characters of
  the author, empty when there is none; and the metadata line holding it.
\<close>

definition author_field :: "pydict \<Rightarrow> string" where
  "author_field post = (case post ''author'' of Some (PyStr a) \<Rightarrow> take 5 a | _ \<Rightarrow> [])"

definition metadata_line :: "pydict \<Rightarrow> string" where
  "metadata_line post =
     ''metadata: [Post_id: '' @ py_str (get_default post ''post_id'' (PyStr [])) @
     '' | Timestamp: '' @ py_str (get_default post ''timestamp'' (PyStr [])) @
     '' | Author: '' @ author_field post @ '']''"

text \<open>A value a text column yields: a \<open>str\<close> or None.\<close>

definition text_or_none :: "pyval \<Rightarrow> bool" where
  "text_or_none v = (case v of PyNone \<Rightarrow> True | PyStr s \<Rightarrow> True | _ \<Rightarrow> False)"

text \<open>The chunk of a pair when its assembly returns, nothing when it raises.\<close>

definition chunk_of :: "int \<Rightarrow> pydict \<times> pydict list \<Rightarrow> chunk option" where
  "chunk_of chunk_size pair =
     (case generate_chunk chunk_size (fst pair) (snd pair) of Inr r \<Rightarrow> Some r | Inl e \<Rightarrow> None)"

text \<open>
  \<open>successes ok e n\<close>: how many of the \<open>n\<close> calls of \<open>cursor.execute\<close> numbered
  \<open>e, \<dots>, e + n - 1\<close> the server accepts.
\<close>

definition successes :: "(nat \<Rightarrow> bool) \<Rightarrow> nat \<Rightarrow> nat \<Rightarrow> nat" where
  "successes ok e n = length (filter ok [e..<e + n])"

text \<open>
  The counter covers the open transaction: every pending row was counted by
  \<open>insert_count\<close>. It holds of a new writer, and \<open>insert_chunk\<close> and
  \<open>insert_chunks_batch\<close> keep it.
\<close>

definition pending_counted :: "writer \<Rightarrow> bool" where
  "pending_counted w = (int (length (pending (connection w))) \<le> insert_count w)"

text \<open>
  Every write of a list of records reports success: \<open>insert_chunk\<close> returns True
  for each, from the state the writes before it left.
\<close>

fun all_succeed :: "writer \<Rightarrow> chunk list \<Rightarrow> bool" where
  "all_succeed w [] = True"
| "all_succeed w (chunk # rest) =
     (fst (insert_chunk w chunk) \<and> all_succeed (snd (insert_chunk w chunk)) rest)"

subsection \<open>Example data\<close>

text \<open>The post of the specification's first example, with a timestamp.\<close>

definition example_post :: pydict where
  "example_post =
     [''post_id'' \<mapsto> PyStr ''P1'', ''timestamp'' \<mapsto> PyDatetime ''2026-01-13 10:30:00'',
      ''author'' \<mapsto> PyStr ''JohnDoe123'', ''title'' \<mapsto> PyStr ''T'',
      ''post_texts'' \<mapsto> PyStr ''Q'']"

text \<open>Three comments, the second with an empty text.\<close>

definition example_comments :: "pydict list" where
  "example_comments =
     [[''comment_texts'' \<mapsto> PyStr ''A1''], [''comment_texts'' \<mapsto> PyStr []],
      [''comment_texts'' \<mapsto> PyStr ''A3'']]"

definition example_text :: string where
  "example_text =
     ''metadata: [Post_id: P1 | Timestamp: 2026-01-13 10:30:00 | Author: JohnD]'' @ DELIMITER @
     ''Title: T'' @ DELIMITER @ ''Question (priority 1): Q'' @ DELIMITER @
     ''Important answer (priority 2): A1'' @ DELIMITER @ ''Other comments (priority 3): A3''"

definition example_chunk :: chunk where
  "example_chunk =
     \<lparr> post_id = PyStr ''P1'', timestamp = PyDatetime ''2026-01-13 10:30:00'',
       full_chunk = example_text, engagement_score = 3 \<rparr>"

definition example_chunk_12 :: chunk where
  "example_chunk_12 =
     \<lparr> post_id = PyStr ''P1'', timestamp = PyDatetime ''2026-01-13 10:30:00'',
       full_chunk = ''metadata: [Post_id: P1 | Timestamp: 2026-01-13 10:30:00 | Author: JohnD] --- Title:'',
       engagement_score = 3 \<rparr>"

text \<open>A post whose author is an integer: slicing it raises TypeError.\<close>

definition ill_typed_post :: pydict where
  "ill_typed_post = [''post_id'' \<mapsto> PyStr ''P2'', ''author'' \<mapsto> PyInt 7]"

text \<open>A post whose author holds two consecutive spaces.\<close>

definition spaced_post :: pydict where
  "spaced_post =
     [''post_id'' \<mapsto> PyStr ''P1'', ''timestamp'' \<mapsto> PyStr ''T'',
      ''author'' \<mapsto> PyStr ''ab  cd'', ''title'' \<mapsto> PyStr ''one two three'']"

definition spaced_chunk_10 :: chunk where
  "spaced_chunk_10 =
     \<lparr> post_id = PyStr ''P1'', timestamp = PyStr ''T'',
       full_chunk = ''metadata: [Post_id: P1 | Timestamp: T | Author: ab c]'',
       engagement_score = 0 \<rparr>"

text \<open>Three rows to insert.\<close>

definition row_a :: chunk where
  "row_a = \<lparr> post_id = PyStr ''A'', timestamp = PyNone, full_chunk = ''a'', engagement_score = 0 \<rparr>"

definition row_b :: chunk where
  "row_b = \<lparr> post_id = PyStr ''B'', timestamp = PyNone, full_chunk = ''b'', engagement_score = 1 \<rparr>"

definition row_c :: chunk where
  "row_c = \<lparr> post_id = PyStr ''C'', timestamp = PyNone, full_chunk = ''c'', engagement_score = 2 \<rparr>"

definition example_sections :: "string list" where
  "example_sections =
     [''metadata: [Post_id: P1 | Timestamp: 2026-01-13 10:30:00 | Author: JohnD]'',
      ''Title: T'', ''Question (priority 1): Q'', ''Important answer (priority 2): A1'',
      ''Other comments (priority 3): A3'']"

text \<open>A writer whose server rejects the second insert, and what becomes of it.\<close>

definition lossy_writer :: writer where
  "lossy_writer = new_writer 1000 (\<lambda>i. i \<noteq> 1) (\<lambda>i. True)"

definition lossy_done :: writer where
  "lossy_done =
     \<lparr> batch_commit_size = 1000,
       connection = \<lparr> execute_ok = (\<lambda>i. i \<noteq> 1), commit_ok = (\<lambda>i. True), executes = 3, commits = 1,
                      pending = [], committed = [row_c], closed = False \<rparr>,
       insert_count = 0, total_inserted = 2, total_failed = 1 \<rparr>"


text \<open>A writer in the middle of a batch: one row written, none committed.\<close>

definition open_writer :: writer where
  "open_writer =
     \<lparr> batch_commit_size = 1000,
       connection = \<lparr> execute_ok = (\<lambda>i. True), commit_ok = (\<lambda>i. True), executes = 1, commits = 0,
                      pending = [row_a], committed = [], closed = False \<rparr>,
       insert_count = 1, total_inserted = 0, total_failed = 0 \<rparr>"



text \<open>Threshold 1 on a server whose first commit raises, and the writer after two rows.\<close>

definition stubborn_writer :: writer where
  "stubborn_writer = new_writer 1 (\<lambda>i. True) (\<lambda>i. i \<noteq> 0)"

definition stubborn_done :: writer where
  "stubborn_done =
     \<lparr> batch_commit_size = 1,
       connection = \<lparr> execute_ok = (\<lambda>i. True), commit_ok = (\<lambda>i. i \<noteq> 0), executes = 2, commits = 2,
                      pending = [], committed = [row_b], closed = False \<rparr>,
       insert_count = 0, total_inserted = 2, total_failed = 1 \<rparr>"

text \<open>One row written on a server that refuses every commit.\<close>

definition refusing_open :: writer where
  "refusing_open =
     \<lparr> batch_commit_size = 1000,
       connection = \<lparr> execute_ok = (\<lambda>i. True), commit_ok = (\<lambda>i. False), executes = 1, commits = 0,
                      pending = [row_a], committed = [], closed = False \<rparr>,
       insert_count = 1, total_inserted = 0, total_failed = 0 \<rparr>"


text \<open>
  Threshold 2 on a server whose first commit raises: the writer at the start,
  after one row and after two.
\<close>

definition balky_writer :: writer where
  "balky_writer = new_writer 2 (\<lambda>i. True) (\<lambda>i. i \<noteq> 0)"

definition balky_one :: writer where
  "balky_one =
     \<lparr> batch_commit_size = 2,
       connection = \<lparr> execute_ok = (\<lambda>i. True), commit_ok = (\<lambda>i. i \<noteq> 0), executes = 1, commits = 0,
                      pending = [row_a], committed = [], closed = False \<rparr>,
       insert_count = 1, total_inserted = 0, total_failed = 0 \<rparr>"

definition balky_two :: writer where
  "balky_two =
     \<lparr> batch_commit_size = 2,
       connection = \<lparr> execute_ok = (\<lambda>i. True), commit_ok = (\<lambda>i. i \<noteq> 0), executes = 2, commits = 1,
                      pending = [], committed = [], closed = False \<rparr>,
       insert_count = 2, total_inserted = 0, total_failed = 1 \<rparr>"

section \<open>Splitting and joining\<close>

lemmas chunk_generator_defs =
  generate_chunk_def full_text_def components_def metadata_def author_prefix_def
  title_step_def question_step_def answer_step_def others_step_def join_vals_def
  get_def get_default_def truncate_to_words_def str_split_def list_slice_to_def
  isspace_def DELIMITER_def Let_def

lemma split_from_words:
  "\<forall>c \<in> set w. \<not> isspace c \<Longrightarrow> x \<in> set (split_from w s) \<Longrightarrow> is_word x"
proof (induction s arbitrary: w)
  case Nil
  then show ?case by (auto simp: is_word_def split: if_splits)
next
  case (Cons a s)
  show ?case
  proof (cases "isspace a")
    case True
    with Cons.prems have "x = w \<and> w \<noteq> [] \<or> x \<in> set (split_from [] s)"
      by (auto split: if_splits)
    then show ?thesis using Cons.IH [of "[]"] Cons.prems(1) by (auto simp: is_word_def)
  next
    case False
    with Cons.prems have "x \<in> set (split_from (w @ [a]) s)" by simp
    moreover have "\<forall>c \<in> set (w @ [a]). \<not> isspace c" using False Cons.prems(1) by simp
    ultimately show ?thesis using Cons.IH [of "w @ [a]"] by blast
  qed
qed

lemma str_split_words: "x \<in> set (str_split s) \<Longrightarrow> is_word x"
  using split_from_words [of "[]" x s] by (simp add: str_split_def)

lemma split_from_append:
  "\<forall>c \<in> set v. \<not> isspace c \<Longrightarrow> split_from w (v @ s) = split_from (w @ v) s"
  by (induction v arbitrary: w) auto

lemma isspace_space: "isspace CHR '' ''"
  by (simp add: isspace_def)

text \<open>Splitting what was joined with single spaces gives the words back.\<close>

lemma split_join_words:
  "\<forall>x \<in> set ws. is_word x \<Longrightarrow> str_split (join '' '' ws) = ws"
proof (induction ws)
  case Nil
  then show ?case by (simp add: str_split_def)
next
  case (Cons x ws)
  have x: "x \<noteq> []" "\<forall>c \<in> set x. \<not> isspace c" using Cons.prems by (auto simp: is_word_def)
  show ?case
  proof (cases ws)
    case Nil
    then show ?thesis using split_from_append [OF x(2), of "[]" "[]"] x(1)
      by (simp add: str_split_def)
  next
    case (Cons y ys)
    have "split_from [] (x @ CHR '' '' # join '' '' ws) = split_from x (CHR '' '' # join '' '' ws)"
      using split_from_append [OF x(2), of "[]"] by simp
    also have "\<dots> = x # str_split (join '' '' ws)"
      using x(1) by (simp add: isspace_space str_split_def)
    also have "\<dots> = x # ws" using Cons.IH Cons.prems by simp
    finally show ?thesis using Cons by (simp add: str_split_def)
  qed
qed

lemma str_split_join_take:
  "str_split (join '' '' (take n (str_split s))) = take n (str_split s)"
  by (rule split_join_words) (auto dest: in_set_takeD str_split_words)

lemma truncate_count:
  assumes "0 < k"
  shows "int (length (str_split (truncate_to_words t k))) \<le> k"
proof (cases "t = [] \<or> int (length (str_split t)) \<le> k")
  case True
  then show ?thesis using assms by (auto simp: truncate_to_words_def Let_def str_split_def)
next
  case False
  then have "truncate_to_words t k = join '' '' (take (nat k) (str_split t))"
    using assms by (simp add: truncate_to_words_def Let_def list_slice_to_def)
  then show ?thesis using assms by (simp add: str_split_join_take)
qed

lemma truncate_unchanged:
  "int (length (str_split t)) \<le> k \<Longrightarrow> truncate_to_words t k = t"
  by (simp add: truncate_to_words_def Let_def)

lemma truncate_cut:
  assumes "0 < k" and "k < int (length (str_split t))"
  shows "truncate_to_words t k = join '' '' (take (nat k) (str_split t))"
proof -
  have "t \<noteq> []" using assms by (auto simp: str_split_def)
  then show ?thesis using assms by (simp add: truncate_to_words_def Let_def list_slice_to_def)
qed

section \<open>Chunk assembly\<close>

lemma generate_chunk_Inr:
  assumes "generate_chunk chunk_size post comments = Inr r"
  shows "\<exists>joined. full_text post comments = Inr joined \<and>
           r = \<lparr> post_id = get post ''post_id'', timestamp = get post ''timestamp'',
                 full_chunk = truncate_to_words joined chunk_size,
                 engagement_score = int (length comments) \<rparr>"
  using assms by (auto simp: generate_chunk_def split: sum.splits)

lemma example_full_text: "full_text example_post example_comments = Inr example_text"
  by (simp add: chunk_generator_defs example_post_def example_comments_def example_text_def)

lemma example_word_count: "length (str_split example_text) = 30"
  by (simp add: example_text_def chunk_generator_defs)

lemma example_generate_12:
  "generate_chunk 12 example_post example_comments = Inr example_chunk_12"
  by (simp add: chunk_generator_defs example_post_def example_comments_def example_chunk_12_def)

lemma example_generate_700:
  "generate_chunk 700 example_post example_comments = Inr example_chunk"
  by (simp add: chunk_generator_defs example_post_def example_comments_def example_chunk_def
      example_text_def)

lemma ill_typed_raises: "generate_chunk k ill_typed_post [] = Inl TypeError"
  by (simp add: chunk_generator_defs ill_typed_post_def)

text \<open>
  C1. For a positive word budget, the word count of \<open>full_chunk\<close> is at most the
  budget; when the joined text has at most that many words \<open>full_chunk\<close> is the
  joined text itself; when it has more, \<open>full_chunk\<close> is the first \<open>chunk_size\<close>
  words of the joined text, joined with single spaces.
\<close>

theorem full_chunk_within_word_budget:
  assumes "0 < chunk_size" and "generate_chunk chunk_size post comments = Inr r"
  shows "\<exists>joined. full_text post comments = Inr joined
           \<and> int (length (str_split (full_chunk r))) \<le> chunk_size
           \<and> (int (length (str_split joined)) \<le> chunk_size \<longrightarrow> full_chunk r = joined)
           \<and> (chunk_size < int (length (str_split joined)) \<longrightarrow>
                full_chunk r = join '' '' (take (nat chunk_size) (str_split joined)))"
proof -
  from generate_chunk_Inr [OF assms(2)] obtain joined where
    t: "full_text post comments = Inr joined" and
    r: "full_chunk r = truncate_to_words joined chunk_size" by auto
  show ?thesis
    using t r assms(1) truncate_count [OF assms(1), of joined]
    by (auto simp: truncate_unchanged truncate_cut)
qed

text \<open>
  The example post with a budget of 12 words: the joined text has 30 words and
  the chunk keeps the first 12.
\<close>

theorem full_chunk_within_word_budget_witness:
  "(0::int) < 12 \<and> generate_chunk 12 example_post example_comments = Inr example_chunk_12
   \<and> full_text example_post example_comments = Inr example_text
   \<and> length (str_split example_text) = 30
   \<and> length (str_split (full_chunk example_chunk_12)) \<le> 12
   \<and> full_chunk example_chunk_12 = join '' '' (take 12 (str_split example_text))"
  using full_chunk_within_word_budget [of 12 example_post example_comments example_chunk_12]
    example_generate_12 example_full_text example_word_count
  by auto

text \<open>
  C5. The \<open>engagement_score\<close> of the returned record is the length of the comment
  list passed in, whatever the texts of the comments are.
\<close>

theorem engagement_score_is_comment_count:
  assumes "generate_chunk chunk_size post comments = Inr r"
  shows "engagement_score r = int (length comments)"
  using generate_chunk_Inr [OF assms] by auto

text \<open>Three comments, one of them empty and not rendered: the score is 3.\<close>

theorem engagement_score_is_comment_count_witness:
  "generate_chunk 700 example_post example_comments = Inr example_chunk
   \<and> engagement_score example_chunk = int (length example_comments)
   \<and> engagement_score example_chunk = 3"
  using engagement_score_is_comment_count [of 700 example_post example_comments example_chunk]
    example_generate_700
  by (simp add: example_comments_def)

subsection \<open>Sections\<close>

lemma other_comments_texts_filter:
  "other_comments_texts acc cs = acc @ filter truthy (map comment_text cs)"
  by (induction cs arbitrary: acc) (simp_all add: comment_text_def Let_def)

lemma strs_of_Inr: "strs_of vs = Inr ss \<Longrightarrow> ss = map py_str vs"
proof (induction vs arbitrary: ss rule: strs_of.induct)
  case 1
  then show ?case by simp
next
  case (2 s vs)
  then show ?case by (auto split: sum.splits)
qed simp_all

lemma join_vals_Inr: "join_vals sep vs = Inr s \<Longrightarrow> s = join sep (map py_str vs)"
  by (auto simp: join_vals_def split: sum.splits dest: strs_of_Inr)

lemma title_step_eq: "title_step post cs = cs @ title_section post"
  by (simp add: title_step_def title_section_def)

lemma question_step_eq: "question_step post cs = cs @ question_section post"
  by (simp add: question_step_def question_section_def)

lemma answer_step_eq: "answer_step comments cs = cs @ answer_section comments"
  by (cases comments) (simp_all add: answer_step_def answer_section_def comment_text_def Let_def)

text \<open>Whether the last step raises does not depend on the sections before it.\<close>

lemma others_step_cases:
  "(\<exists>e. \<forall>cs. others_step comments cs = Inl e) \<or>
   (\<forall>cs. others_step comments cs = Inr (cs @ others_section comments))"
proof (cases comments)
  case Nil
  then show ?thesis by (simp add: others_step_def others_section_def)
next
  case (Cons c rest)
  show ?thesis
  proof (cases "filter truthy (map comment_text rest) = []")
    case True
    with Cons show ?thesis
      by (cases rest) (simp_all add: others_step_def others_section_def other_comments_texts_filter)
  next
    case False
    then have rest: "rest \<noteq> []" by auto
    show ?thesis
    proof (cases "join_vals DELIMITER (filter truthy (map comment_text rest))")
      case (Inl e)
      with Cons False rest show ?thesis
        by (simp add: others_step_def other_comments_texts_filter Let_def)
    next
      case (Inr s)
      with Cons False rest join_vals_Inr [OF Inr] show ?thesis
        by (simp add: others_step_def others_section_def other_comments_texts_filter Let_def)
    qed
  qed
qed

lemma others_step_Inr:
  assumes "others_step comments cs = Inr cs'"
  shows "others_step comments ds = Inr (ds @ others_section comments)"
  using assms others_step_cases [of comments] by auto

lemma get_other_key: "k \<noteq> k' \<Longrightarrow> get (post(k := v)) k' = get post k'"
  by (simp add: get_def)

lemma get_default_other_key:
  "k \<noteq> k' \<Longrightarrow> get_default (post(k := v)) k' d = get_default post k' d"
  by (simp add: get_default_def)

lemma author_prefix_other_key:
  "k \<noteq> ''author'' \<Longrightarrow> author_prefix (post(k := v)) = author_prefix post"
  by (simp add: author_prefix_def get_other_key get_default_other_key)

lemma metadata_ignores_title: "metadata (post(''title'' := v)) = metadata post"
  by (simp add: metadata_def author_prefix_other_key get_default_other_key cong: sum.case_cong)

lemma metadata_ignores_post_texts: "metadata (post(''post_texts'' := v)) = metadata post"
  by (simp add: metadata_def author_prefix_other_key get_default_other_key cong: sum.case_cong)

lemma components_Inr:
  assumes "components post comments = Inr cs"
  shows "\<exists>m. metadata post = Inr m \<and>
           cs = [m] @ title_section post @ question_section post @ answer_section comments
                  @ others_section comments"
  using assms others_step_cases [of comments]
  by (auto simp: components_def title_step_eq question_step_eq answer_step_eq
      split: sum.splits)

text \<open>
  C6. Before truncation the sections are, in this order, the metadata line (always
  present and first), then the title, question, important-answer and
  other-comments lines, each present exactly when its source datum is truthy:
  the title, the post text, the text of the first comment, some text among the
  comments after the first. The joined text is these sections joined with the
  delimiter. Removing the title, the post text, or all comments removes exactly
  the sections of that datum and leaves the others as they were.
\<close>

theorem sections_follow_truthiness:
  assumes "components post comments = Inr cs"
  shows "\<exists>m. metadata post = Inr m
     \<and> cs = [m] @ title_section post @ question_section post @ answer_section comments
              @ others_section comments
     \<and> full_text post comments = Inr (join DELIMITER cs)
     \<and> (title_section post \<noteq> [] \<longleftrightarrow> truthy (get post ''title''))
     \<and> (question_section post \<noteq> [] \<longleftrightarrow> truthy (get post ''post_texts''))
     \<and> (answer_section comments \<noteq> [] \<longleftrightarrow> comments \<noteq> [] \<and> truthy (comment_text (hd comments)))
     \<and> (others_section comments \<noteq> [] \<longleftrightarrow> (\<exists>c \<in> set (tl comments). truthy (comment_text c)))
     \<and> components (post(''title'' := None)) comments =
           Inr ([m] @ question_section post @ answer_section comments @ others_section comments)
     \<and> components (post(''post_texts'' := None)) comments =
           Inr ([m] @ title_section post @ answer_section comments @ others_section comments)
     \<and> components post [] = Inr ([m] @ title_section post @ question_section post)"
proof -
  from components_Inr [OF assms] obtain m where
    m: "metadata post = Inr m" and
    cs: "cs = [m] @ title_section post @ question_section post @ answer_section comments
              @ others_section comments" by blast
  have others: "others_step comments ds = Inr (ds @ others_section comments)" for ds
    using assms m others_step_Inr [of comments _ cs ds]
    by (simp add: components_def)
  have full: "full_text post comments = Inr (join DELIMITER cs)"
    using assms by (simp add: full_text_def)
  have t: "title_section post \<noteq> [] \<longleftrightarrow> truthy (get post ''title'')"
    by (simp add: title_section_def)
  have q: "question_section post \<noteq> [] \<longleftrightarrow> truthy (get post ''post_texts'')"
    by (simp add: question_section_def)
  have a: "answer_section comments \<noteq> [] \<longleftrightarrow> comments \<noteq> [] \<and> truthy (comment_text (hd comments))"
    by (cases comments) (simp_all add: answer_section_def)
  have o: "others_section comments \<noteq> [] \<longleftrightarrow> (\<exists>c \<in> set (tl comments). truthy (comment_text c))"
    by (auto simp: others_section_def Let_def filter_empty_conv)
  have no_title: "components (post(''title'' := None)) comments =
      Inr ([m] @ question_section post @ answer_section comments @ others_section comments)"
    using m others
    by (simp add: components_def metadata_ignores_title title_step_def question_step_eq
        answer_step_eq question_section_def get_def)
  have no_texts: "components (post(''post_texts'' := None)) comments =
      Inr ([m] @ title_section post @ answer_section comments @ others_section comments)"
    using m others
    by (simp add: components_def metadata_ignores_post_texts title_step_eq question_step_def
        answer_step_eq title_section_def get_def)
  have no_comments: "components post [] = Inr ([m] @ title_section post @ question_section post)"
    using m
    by (simp add: components_def title_step_eq question_step_eq answer_step_def others_step_def)
  show ?thesis using m cs full t q a o no_title no_texts no_comments by blast
qed


lemma example_components: "components example_post example_comments = Inr example_sections"
  by (simp add: chunk_generator_defs example_post_def example_comments_def example_sections_def)

text \<open>The example post has all five sections; each removal leaves the other ones.\<close>

theorem sections_follow_truthiness_witness:
  "components example_post example_comments = Inr example_sections
   \<and> components (example_post(''title'' := None)) example_comments =
       Inr [example_sections ! 0, example_sections ! 2, example_sections ! 3, example_sections ! 4]
   \<and> components (example_post(''post_texts'' := None)) example_comments =
       Inr [example_sections ! 0, example_sections ! 1, example_sections ! 3, example_sections ! 4]
   \<and> components example_post [] = Inr (take 3 example_sections)"
proof -
  have m: "metadata example_post =
      Inr ''metadata: [Post_id: P1 | Timestamp: 2026-01-13 10:30:00 | Author: JohnD]''"
    by (simp add: chunk_generator_defs example_post_def)
  have s: "title_section example_post = [''Title: T'']"
    "question_section example_post = [''Question (priority 1): Q'']"
    "answer_section example_comments = [''Important answer (priority 2): A1'']"
    "others_section example_comments = [''Other comments (priority 3): A3'']"
    by (simp_all add: title_section_def question_section_def answer_section_def
        others_section_def comment_text_def get_def get_default_def example_post_def
        example_comments_def)
  show ?thesis
    using sections_follow_truthiness [OF example_components] example_components m s
    by (simp add: example_sections_def)
qed

subsection \<open>The metadata line\<close>

lemma metadata_Inr:
  assumes "metadata post = Inr m"
  shows "m = metadata_line post"
proof (cases "post ''author''")
  case None
  with assms show ?thesis
    by (simp add: metadata_def metadata_line_def author_prefix_def author_field_def get_def)
next
  case (Some v)
  with assms show ?thesis
    by (cases v)
       (auto simp: metadata_def metadata_line_def author_prefix_def author_field_def get_def
          get_default_def split: if_splits)
qed

lemma prefix_join: "prefix m (join sep (m # rest))"
  by (cases rest) simp_all

lemma split_from_whitespace:
  "isspace c \<Longrightarrow> split_from w (s @ c # t) = split_from w s @ split_from [] t"
  by (induction s arbitrary: w) simp_all

lemma str_split_whitespace:
  "isspace c \<Longrightarrow> str_split (s @ c # t) = str_split s @ str_split t"
  by (simp add: str_split_def split_from_whitespace)

lemma isspace_newline: "isspace (CHR 0x0A)"
  by (simp add: isspace_def)

lemma str_split_join_delimiter:
  "prefix (str_split m) (str_split (join DELIMITER (m # rest)))"
proof (cases rest)
  case Nil
  then show ?thesis by simp
next
  case (Cons x xs)
  have "join DELIMITER (m # rest) =
      m @ CHR 0x0A # ([CHR 0x0A] @ ''---'' @ [CHR 0x0A, CHR 0x0A] @ join DELIMITER rest)"
    using Cons by (simp add: DELIMITER_def)
  then show ?thesis using str_split_whitespace [OF isspace_newline, of m] by simp
qed

lemma prefix_take: "prefix xs ys \<Longrightarrow> length xs \<le> k \<Longrightarrow> prefix xs (take k ys)"
  by (auto simp: prefix_def)

lemma prefix_join_append: "prefix (join sep xs) (join sep (xs @ ys))"
proof (induction xs rule: induct_list012)
  case 1
  then show ?case by simp
next
  case (2 x)
  then show ?case by (cases ys) simp_all
next
  case (3 x y zs)
  then show ?case by simp
qed

text \<open>The words of a truncated text, for a budget that is not negative.\<close>

lemma str_split_truncate:
  assumes "0 \<le> k"
  shows "str_split (truncate_to_words t k) = take (nat k) (str_split t)"
proof (cases "t = [] \<or> int (length (str_split t)) \<le> k")
  case True
  then show ?thesis using assms by (auto simp: truncate_to_words_def Let_def str_split_def)
next
  case False
  then have "truncate_to_words t k = join '' '' (take (nat k) (str_split t))"
    using assms by (simp add: truncate_to_words_def Let_def list_slice_to_def)
  then show ?thesis by (simp add: str_split_join_take)
qed

lemma truncate_keeps_leading_words:
  assumes "prefix ws (str_split t)" and "int (length ws) \<le> k"
  shows "prefix ws (str_split (truncate_to_words t k))"
proof -
  have k: "0 \<le> k" using assms(2) by linarith
  have "length ws \<le> nat k" using assms(2) by linarith
  then show ?thesis using assms(1) by (simp add: str_split_truncate [OF k] prefix_take)
qed

lemma truncate_keeps_leading_line:
  assumes "prefix (str_split m) (str_split t)" and "int (length (str_split m)) \<le> k"
    and "join '' '' (str_split m) = m" and "prefix m t"
  shows "prefix m (truncate_to_words t k)"
proof (cases "t = [] \<or> int (length (str_split t)) \<le> k")
  case True
  then show ?thesis using assms(4) by (auto simp: truncate_to_words_def Let_def)
next
  case False
  have k: "0 \<le> k" using assms(2) by linarith
  have t: "truncate_to_words t k = join '' '' (take (nat k) (str_split t))"
    using False k by (simp add: truncate_to_words_def Let_def list_slice_to_def)
  have "length (str_split m) \<le> nat k" using assms(2) by linarith
  with assms(1) have "prefix (str_split m) (take (nat k) (str_split t))"
    by (rule prefix_take)
  then obtain rest where "take (nat k) (str_split t) = str_split m @ rest"
    by (auto simp: prefix_def)
  then show ?thesis
    using prefix_join_append [of "'' ''" "str_split m" rest] assms(3) t by simp
qed


lemma full_text_shape:
  assumes "full_text post comments = Inr joined"
  shows "metadata post = Inr (metadata_line post)
     \<and> (\<exists>rest. joined = join DELIMITER (metadata_line post # rest))"
proof -
  from assms obtain cs where cs: "components post comments = Inr cs"
    and j: "joined = join DELIMITER cs"
    by (auto simp: full_text_def split: sum.splits)
  from cs others_step_cases [of comments] obtain m rest where
    m: "metadata post = Inr m" and "cs = m # rest"
    by (auto simp: components_def title_step_eq question_step_eq answer_step_eq
        split: sum.splits)
  then show ?thesis using j metadata_Inr [OF m] by auto
qed

text \<open>
  C8, as amended. The author field of the metadata line, as assembled before
  truncation, is the first five characters of the author, or empty when there is
  no author; an author of at most five characters is used whole, a longer one is
  never used whole. The joined text starts with that line. In \<open>full_chunk\<close>:
  when the joined text is within the word budget the chunk starts with the line
  unchanged; when the budget covers the words of the line, truncated or not, the
  words of the chunk start with the words of the line, author field included;
  and when moreover the words of the line are separated by single spaces only,
  the chunk starts with the line unchanged even after truncation.
\<close>

theorem author_field_in_metadata_line:
  assumes "full_text post comments = Inr joined"
  shows "metadata post = Inr (metadata_line post)
     \<and> prefix (metadata_line post) joined
     \<and> (generate_chunk chunk_size post comments = Inr r
          \<and> int (length (str_split joined)) \<le> chunk_size
        \<longrightarrow> prefix (metadata_line post) (full_chunk r))
     \<and> (generate_chunk chunk_size post comments = Inr r
          \<and> int (length (str_split (metadata_line post))) \<le> chunk_size
        \<longrightarrow> prefix (str_split (metadata_line post)) (str_split (full_chunk r)))
     \<and> (generate_chunk chunk_size post comments = Inr r
          \<and> int (length (str_split (metadata_line post))) \<le> chunk_size
          \<and> join '' '' (str_split (metadata_line post)) = metadata_line post
        \<longrightarrow> prefix (metadata_line post) (full_chunk r))
     \<and> (post ''author'' = Some (PyStr a) \<longrightarrow>
          author_field post = take 5 a
          \<and> (length a \<le> 5 \<longrightarrow> author_field post = a)
          \<and> (5 < length a \<longrightarrow> author_field post \<noteq> a))
     \<and> (post ''author'' = None \<longrightarrow> author_field post = [])"
proof -
  from full_text_shape [OF assms] obtain rest where
    m: "metadata post = Inr (metadata_line post)"
    and j: "joined = join DELIMITER (metadata_line post # rest)" by blast
  have line: "prefix (metadata_line post) joined"
    unfolding j by (rule prefix_join)
  have lead: "prefix (str_split (metadata_line post)) (str_split joined)"
    unfolding j by (rule str_split_join_delimiter)
  have chunk: "full_chunk r = truncate_to_words joined chunk_size"
    if "generate_chunk chunk_size post comments = Inr r"
    using generate_chunk_Inr [OF that] assms by auto
  have kept: "prefix (metadata_line post) (full_chunk r)"
    if "generate_chunk chunk_size post comments = Inr r"
      and "int (length (str_split joined)) \<le> chunk_size"
    using chunk [OF that(1)] that(2) line by (simp add: truncate_unchanged)
  have leading_words: "prefix (str_split (metadata_line post)) (str_split (full_chunk r))"
    if "generate_chunk chunk_size post comments = Inr r"
      and "int (length (str_split (metadata_line post))) \<le> chunk_size"
    using chunk [OF that(1)] truncate_keeps_leading_words [OF lead that(2)] by simp
  have leading_line: "prefix (metadata_line post) (full_chunk r)"
    if "generate_chunk chunk_size post comments = Inr r"
      and "int (length (str_split (metadata_line post))) \<le> chunk_size"
      and "join '' '' (str_split (metadata_line post)) = metadata_line post"
    using chunk [OF that(1)] truncate_keeps_leading_line [OF lead that(2,3) line] by simp
  have field: "author_field post = take 5 a
      \<and> (length a \<le> 5 \<longrightarrow> author_field post = a)
      \<and> (5 < length a \<longrightarrow> author_field post \<noteq> a)"
    if "post ''author'' = Some (PyStr a)"
  proof -
    have "author_field post = take 5 a" using that by (simp add: author_field_def)
    moreover have "take 5 a \<noteq> a" if "5 < length a"
    proof
      assume "take 5 a = a"
      then have "length (take 5 a) = length a" by simp
      with that show False by simp
    qed
    ultimately show ?thesis by simp
  qed
  have absent: "author_field post = []" if "post ''author'' = None"
    using that by (simp add: author_field_def)
  show ?thesis using m line kept leading_words leading_line field absent by blast
qed

lemma example_metadata_line:
  "metadata_line example_post =
     ''metadata: [Post_id: P1 | Timestamp: 2026-01-13 10:30:00 | Author: JohnD]''"
  by (simp add: metadata_line_def author_field_def get_default_def example_post_def)

lemma spaced_metadata_line:
  "metadata_line spaced_post = ''metadata: [Post_id: P1 | Timestamp: T | Author: ab  c]''"
  by (simp add: metadata_line_def author_field_def get_default_def spaced_post_def)

lemma spaced_full_text:
  "full_text spaced_post [] =
     Inr (''metadata: [Post_id: P1 | Timestamp: T | Author: ab  c]'' @ DELIMITER @
          ''Title: one two three'')"
  by (simp add: chunk_generator_defs spaced_post_def)

lemma spaced_generate_10: "generate_chunk 10 spaced_post [] = Inr spaced_chunk_10"
  by (simp add: chunk_generator_defs spaced_post_def spaced_chunk_10_def)

text \<open>
  The example post: the author \<open>JohnDoe123\<close> appears as \<open>JohnD\<close>, in the chunk of
  700 words and in the chunk truncated to 12 words. The post whose author holds
  two spaces, truncated to 10 words: the ten words of its metadata line are the
  words of the chunk.
\<close>

theorem author_field_in_metadata_line_witness:
  "full_text example_post example_comments = Inr example_text
   \<and> generate_chunk 700 example_post example_comments = Inr example_chunk
   \<and> metadata example_post = Inr (metadata_line example_post)
   \<and> metadata_line example_post =
       ''metadata: [Post_id: P1 | Timestamp: 2026-01-13 10:30:00 | Author: JohnD]''
   \<and> prefix (metadata_line example_post) (full_chunk example_chunk)
   \<and> example_post ''author'' = Some (PyStr ''JohnDoe123'')
   \<and> author_field example_post = ''JohnD''
   \<and> generate_chunk 12 example_post example_comments = Inr example_chunk_12
   \<and> length (str_split (metadata_line example_post)) = 10
   \<and> join '' '' (str_split (metadata_line example_post)) = metadata_line example_post
   \<and> prefix (metadata_line example_post) (full_chunk example_chunk_12)
   \<and> generate_chunk 10 spaced_post [] = Inr spaced_chunk_10
   \<and> str_split (metadata_line spaced_post) =
       [''metadata:'', ''[Post_id:'', ''P1'', ''|'', ''Timestamp:'', ''T'', ''|'', ''Author:'',
        ''ab'', ''c]'']
   \<and> prefix (str_split (metadata_line spaced_post)) (str_split (full_chunk spaced_chunk_10))"
proof -
  have a: "example_post ''author'' = Some (PyStr ''JohnDoe123'')"
    by (simp add: example_post_def)
  have f: "author_field example_post = ''JohnD''"
    by (simp add: author_field_def a)
  have w: "int (length (str_split example_text)) \<le> 700"
    by (simp add: example_word_count)
  have lw: "length (str_split (metadata_line example_post)) = 10"
    "join '' '' (str_split (metadata_line example_post)) = metadata_line example_post"
    unfolding example_metadata_line by (simp_all add: str_split_def isspace_def)
  have sw: "str_split (metadata_line spaced_post) =
       [''metadata:'', ''[Post_id:'', ''P1'', ''|'', ''Timestamp:'', ''T'', ''|'', ''Author:'',
        ''ab'', ''c]'']"
    unfolding spaced_metadata_line by (simp add: str_split_def isspace_def)
  have sl: "int (length (str_split (metadata_line spaced_post))) \<le> 10"
    unfolding sw by simp
  from author_field_in_metadata_line [OF example_full_text, of 700 example_chunk "''JohnDoe123''"]
    example_generate_700 w
  have 1: "metadata example_post = Inr (metadata_line example_post)"
    "prefix (metadata_line example_post) (full_chunk example_chunk)"
    by blast+
  from author_field_in_metadata_line [OF example_full_text, of 12 example_chunk_12 "''JohnDoe123''"]
    example_generate_12 lw
  have 2: "prefix (metadata_line example_post) (full_chunk example_chunk_12)"
    by simp
  from author_field_in_metadata_line [OF spaced_full_text, of 10 spaced_chunk_10 "''ab  cd''"]
    spaced_generate_10 sl
  have 3: "prefix (str_split (metadata_line spaced_post)) (str_split (full_chunk spaced_chunk_10))"
    by blast
  show ?thesis
    using example_full_text example_generate_700 example_generate_12 spaced_generate_10
      example_metadata_line a f lw sw 1 2 3
    by blast
qed

text \<open>
  C8 as stated speaks of the author field inside \<open>full_chunk\<close>. With a budget of
  10 words the text of \<open>spaced_post\<close> is truncated, the words are joined again
  with single spaces, and the author field of \<open>full_chunk\<close> reads \<open>ab c\<close>, which
  is not the first five characters \<open>ab  c\<close> of the author.
\<close>

theorem author_field_rewritten_by_truncation:
  "generate_chunk 10 spaced_post [] = Inr spaced_chunk_10
   \<and> author_field spaced_post = ''ab  c''
   \<and> metadata_line spaced_post = ''metadata: [Post_id: P1 | Timestamp: T | Author: ab  c]''
   \<and> full_chunk spaced_chunk_10 = ''metadata: [Post_id: P1 | Timestamp: T | Author: ab c]''
   \<and> \<not> prefix (metadata_line spaced_post) (full_chunk spaced_chunk_10)"
  using spaced_generate_10
  by (simp add: author_field_def metadata_line_def get_default_def spaced_post_def
      spaced_chunk_10_def)

subsection \<open>When assembly returns\<close>

lemma strs_of_texts:
  "\<forall>v \<in> set vs. text_or_none v \<Longrightarrow> \<exists>ss. strs_of (filter truthy vs) = Inr ss"
proof (induction vs)
  case Nil
  then show ?case by simp
next
  case (Cons v vs)
  then obtain ss where "strs_of (filter truthy vs) = Inr ss" by auto
  with Cons.prems show ?case by (cases v) (auto simp: text_or_none_def)
qed

lemma author_prefix_returns:
  "text_or_none (get post ''author'') \<Longrightarrow> \<exists>ap. author_prefix post = Inr ap"
  by (cases "get post ''author''")
     (auto simp: author_prefix_def text_or_none_def get_def get_default_def split: option.splits)

text \<open>
  Assembly returns whenever the author and the texts of the comments after the
  first are text or None, as the columns they are read from make them.
\<close>

lemma generate_chunk_returns:
  assumes "text_or_none (get post ''author'')"
    and "\<forall>c \<in> set (tl comments). text_or_none (comment_text c)"
  shows "\<exists>r. generate_chunk chunk_size post comments = Inr r"
proof -
  from author_prefix_returns [OF assms(1)] obtain m where m: "metadata post = Inr m"
    by (auto simp: metadata_def)
  have "\<forall>v \<in> set (map comment_text (tl comments)). text_or_none v" using assms(2) by simp
  from strs_of_texts [OF this] obtain ss where
    "strs_of (filter truthy (map comment_text (tl comments))) = Inr ss" by blast
  then have "\<exists>cs'. others_step comments cs = Inr cs'" for cs
    by (cases comments)
       (auto simp: others_step_def other_comments_texts_filter join_vals_def Let_def drop_Suc)
  then obtain cs where "components post comments = Inr cs"
    using m by (auto simp: components_def)
  then show ?thesis by (simp add: generate_chunk_def full_text_def)
qed

section \<open>Batch assembly\<close>

lemma chunks_loop_eq:
  "chunks_loop k acc xs = acc @ List.map_filter (chunk_of k) xs"
proof (induction xs arbitrary: acc)
  case Nil
  then show ?case by simp
next
  case (Cons pair xs)
  obtain post comments where pair: "pair = (post, comments)" by (cases pair)
  show ?case
    by (cases "generate_chunk k post comments")
       (simp_all add: pair Cons.IH chunk_of_def)
qed

lemma map_filter_append:
  "List.map_filter f (xs @ ys) = List.map_filter f xs @ List.map_filter f ys"
  by (simp add: List.map_filter_def)

text \<open>
  C9. \<open>generate_chunks_batch\<close> returns the chunks of exactly the pairs whose
  assembly returns, in input order; a pair whose assembly raises is skipped and
  the pairs after it are still processed.
\<close>

theorem batch_skips_failing_posts:
  "generate_chunks_batch k xs = List.map_filter (chunk_of k) xs \<and>
   (generate_chunk k post comments = Inl e \<longrightarrow>
      generate_chunks_batch k (xs @ (post, comments) # ys) =
        generate_chunks_batch k xs @ generate_chunks_batch k ys)"
  by (simp add: generate_chunks_batch_def chunks_loop_eq map_filter_append chunk_of_def)

text \<open>
  A batch of three posts whose second post raises TypeError: the chunks of the
  first and the third are returned.
\<close>

theorem batch_skips_failing_posts_witness:
  "generate_chunk 700 ill_typed_post [] = Inl TypeError
   \<and> generate_chunks_batch 700
       [(example_post, example_comments), (ill_typed_post, []), (example_post, example_comments)]
     = [example_chunk, example_chunk]"
  using batch_skips_failing_posts [of 700 "[(example_post, example_comments)]" ill_typed_post "[]"
      TypeError "[(example_post, example_comments)]"]
    ill_typed_raises [of 700] example_generate_700
  by (simp add: chunk_of_def)

section \<open>The batch writer\<close>

lemmas database_writer_defs =
  insert_chunks_batch_def insert_chunk_def insert_failed_def commit_def disconnect_def
  cursor_execute_def connection_commit_def connection_rollback_def connection_close_def
  new_writer_def Let_def

subsection \<open>Counting accepted inserts\<close>

lemma successes_0: "successes ok e 0 = 0"
  by (simp add: successes_def)

lemma successes_Suc: "successes ok e (Suc n) = (if ok e then 1 else 0) + successes ok (Suc e) n"
proof -
  have "[e..<e + Suc n] = e # [Suc e..<Suc e + n]"
    by (subst upt_rec) simp
  then show ?thesis by (simp add: successes_def)
qed

lemma successes_le: "successes ok e n \<le> n"
  unfolding successes_def using length_filter_le [of ok "[e..<e + n]"] by simp

lemma successes_all: "\<forall>i. ok i \<Longrightarrow> successes ok e n = n"
  by (simp add: successes_def)

lemma successes_except:
  "successes (\<lambda>i. i \<noteq> k) e n = (if e \<le> k \<and> k < e + n then n - 1 else n)"
proof (induction n arbitrary: e)
  case 0
  then show ?case by (simp add: successes_0)
next
  case (Suc n)
  show ?case unfolding successes_Suc Suc.IH by auto
qed

subsection \<open>The four outcomes of \<open>insert_chunk\<close>\<close>

lemma insert_chunk_execute_fails:
  assumes "\<not> execute_ok (connection w) (executes (connection w))"
  shows "insert_chunk w ch =
           (False, w\<lparr>connection := (connection w)\<lparr>executes := Suc (executes (connection w)), pending := []\<rparr>,
                     total_failed := total_failed w + 1\<rparr>)"
  using assms
  by (simp add: insert_chunk_def cursor_execute_def insert_failed_def connection_rollback_def)

lemma insert_chunk_below_threshold:
  assumes "execute_ok (connection w) (executes (connection w))"
    and "insert_count w + 1 < batch_commit_size w"
  shows "insert_chunk w ch =
           (True, w\<lparr>connection := (connection w)\<lparr>executes := Suc (executes (connection w)),
                                                 pending := pending (connection w) @ [ch]\<rparr>,
                    insert_count := insert_count w + 1\<rparr>)"
  using assms
  by (simp add: insert_chunk_def cursor_execute_def Let_def)

lemma insert_chunk_checkpoint:
  assumes "execute_ok (connection w) (executes (connection w))"
    and "batch_commit_size w \<le> insert_count w + 1"
    and "commit_ok (connection w) (commits (connection w))"
  shows "insert_chunk w ch =
           (True, w\<lparr>connection := (connection w)\<lparr>executes := Suc (executes (connection w)),
                                                 commits := Suc (commits (connection w)),
                                                 committed := committed (connection w) @ pending (connection w) @ [ch],
                                                 pending := []\<rparr>,
                    total_inserted := total_inserted w + (insert_count w + 1),
                    insert_count := 0\<rparr>)"
  using assms
  by (simp add: insert_chunk_def cursor_execute_def Let_def commit_def connection_commit_def)

lemma insert_chunk_checkpoint_fails:
  assumes "execute_ok (connection w) (executes (connection w))"
    and "batch_commit_size w \<le> insert_count w + 1"
    and "\<not> commit_ok (connection w) (commits (connection w))"
  shows "insert_chunk w ch =
           (False, w\<lparr>connection := (connection w)\<lparr>executes := Suc (executes (connection w)),
                                                  commits := Suc (commits (connection w)),
                                                  pending := []\<rparr>,
                     insert_count := insert_count w + 1,
                     total_failed := total_failed w + 1\<rparr>)"
  using assms
  by (simp add: insert_chunk_def cursor_execute_def Let_def commit_def connection_commit_def
      insert_failed_def connection_rollback_def)

text \<open>The four cases are all there are.\<close>

lemma insert_chunk_cases:
  obtains
    (execute_fails) "\<not> execute_ok (connection w) (executes (connection w))"
  | (below) "execute_ok (connection w) (executes (connection w))"
      "insert_count w + 1 < batch_commit_size w"
  | (checkpoint) "execute_ok (connection w) (executes (connection w))"
      "batch_commit_size w \<le> insert_count w + 1"
      "commit_ok (connection w) (commits (connection w))"
  | (checkpoint_fails) "execute_ok (connection w) (executes (connection w))"
      "batch_commit_size w \<le> insert_count w + 1"
      "\<not> commit_ok (connection w) (commits (connection w))"
  by fastforce

subsection \<open>The loop while its commits succeed\<close>

text \<open>
  With \<open>S\<close> the number of accepted inserts, and as long as the commits the loop
  issues succeed, the loop ends with the counter at \<open>(insert_count + S) mod N\<close>
  after \<open>(insert_count + S) div N\<close> commits.
\<close>

lemma insert_loop_closed_form:
  assumes "0 \<le> insert_count w" and "insert_count w < batch_commit_size w"
    and "\<forall>j. int j < (insert_count w
                 + int (successes (execute_ok (connection w)) (executes (connection w)) (length chunks)))
                div batch_commit_size w
             \<longrightarrow> commit_ok (connection w) (commits (connection w) + j)"
  shows "\<exists>w1. insert_loop w chunks s f =
            (w1, s + int (successes (execute_ok (connection w)) (executes (connection w)) (length chunks)),
                 f + int (length chunks) - int (successes (execute_ok (connection w)) (executes (connection w)) (length chunks)))
          \<and> insert_count w1 =
              (insert_count w + int (successes (execute_ok (connection w)) (executes (connection w)) (length chunks)))
                mod batch_commit_size w
          \<and> int (commits (connection w1)) =
              int (commits (connection w)) +
              (insert_count w + int (successes (execute_ok (connection w)) (executes (connection w)) (length chunks)))
                div batch_commit_size w
          \<and> total_inserted w1 + insert_count w1 =
              total_inserted w + insert_count w
                + int (successes (execute_ok (connection w)) (executes (connection w)) (length chunks))
          \<and> batch_commit_size w1 = batch_commit_size w
          \<and> commit_ok (connection w1) = commit_ok (connection w)"
  using assms
proof (induction chunks arbitrary: w s f)
  case Nil
  then show ?case by (simp add: successes_0)
next
  case (Cons ch rest)
  let ?c = "connection w"
  let ?N = "batch_commit_size w"
  let ?S' = "successes (execute_ok ?c) (Suc (executes ?c)) (length rest)"
  show ?case
  proof (cases "execute_ok ?c (executes ?c)")
    case False
    let ?w' = "w\<lparr>connection := ?c\<lparr>executes := Suc (executes ?c), pending := []\<rparr>,
                   total_failed := total_failed w + 1\<rparr>"
    have step: "insert_chunk w ch = (False, ?w')"
      using False by (rule insert_chunk_execute_fails)
    have S: "successes (execute_ok ?c) (executes ?c) (length (ch # rest)) = ?S'"
      using False by (simp add: successes_Suc)
    have pre: "0 \<le> insert_count ?w'" "insert_count ?w' < batch_commit_size ?w'"
      "\<forall>j. int j < (insert_count ?w'
                 + int (successes (execute_ok (connection ?w')) (executes (connection ?w')) (length rest)))
                div batch_commit_size ?w'
             \<longrightarrow> commit_ok (connection ?w') (commits (connection ?w') + j)"
      using Cons.prems unfolding S by simp_all
    from Cons.IH [OF pre, of s "f + 1"] obtain w1 where
      "insert_loop ?w' rest s (f + 1) = (w1, s + int ?S', f + 1 + int (length rest) - int ?S')"
      "insert_count w1 = (insert_count w + int ?S') mod ?N"
      "int (commits (connection w1)) = int (commits ?c) + (insert_count w + int ?S') div ?N"
      "total_inserted w1 + insert_count w1 = total_inserted w + insert_count w + int ?S'"
      "batch_commit_size w1 = ?N" "commit_ok (connection w1) = commit_ok ?c"
      by auto
    then show ?thesis unfolding S using step by auto
  next
    case True
    have S: "int (successes (execute_ok ?c) (executes ?c) (length (ch # rest))) = 1 + int ?S'"
      using True by (simp add: successes_Suc)
    show ?thesis
    proof (cases "insert_count w + 1 < ?N")
      case below: True
      let ?w' = "w\<lparr>connection := ?c\<lparr>executes := Suc (executes ?c), pending := pending ?c @ [ch]\<rparr>,
                     insert_count := insert_count w + 1\<rparr>"
      have step: "insert_chunk w ch = (True, ?w')"
        using True below by (rule insert_chunk_below_threshold)
      have e: "insert_count w + 1 + int ?S' = insert_count w + (1 + int ?S')" by simp
      have pre: "0 \<le> insert_count ?w'" "insert_count ?w' < batch_commit_size ?w'"
        "\<forall>j. int j < (insert_count ?w'
                 + int (successes (execute_ok (connection ?w')) (executes (connection ?w')) (length rest)))
                div batch_commit_size ?w'
             \<longrightarrow> commit_ok (connection ?w') (commits (connection ?w') + j)"
        using Cons.prems below unfolding S by (simp_all add: e)
      from Cons.IH [OF pre, of "s + 1" f] obtain w1 where
        "insert_loop ?w' rest (s + 1) f = (w1, s + 1 + int ?S', f + int (length rest) - int ?S')"
        "insert_count w1 = (insert_count w + 1 + int ?S') mod ?N"
        "int (commits (connection w1)) = int (commits ?c) + (insert_count w + 1 + int ?S') div ?N"
        "total_inserted w1 + insert_count w1 = total_inserted w + (insert_count w + 1) + int ?S'"
        "batch_commit_size w1 = ?N" "commit_ok (connection w1) = commit_ok ?c"
        by auto
      then show ?thesis unfolding S using step by (auto simp: e algebra_simps)
    next
      case False
      then have eq: "insert_count w + 1 = ?N" using Cons.prems by simp
      have pos: "?N \<noteq> 0" "0 < ?N" using Cons.prems(1,2) by simp_all
      have arith: "(insert_count w + (1 + x)) mod ?N = x mod ?N"
        "(insert_count w + (1 + x)) div ?N = 1 + x div ?N" for x
      proof -
        have e: "insert_count w + (1 + x) = ?N + x" using eq by simp
        show "(insert_count w + (1 + x)) mod ?N = x mod ?N"
          unfolding e by simp
        show "(insert_count w + (1 + x)) div ?N = 1 + x div ?N"
          unfolding e using pos(1) div_add_self1 [of "?N" x] by linarith
      qed
      have nonneg: "0 \<le> int ?S' div ?N"
        using pos(2) by (simp add: pos_imp_zdiv_nonneg_iff)
      have issued: "\<forall>j. int j < 1 + int ?S' div ?N \<longrightarrow> commit_ok ?c (commits ?c + j)"
        using Cons.prems(3) unfolding S arith .
      have c0: "commit_ok ?c (commits ?c)"
        using issued [rule_format, of 0] nonneg by simp
      let ?w' = "w\<lparr>connection := ?c\<lparr>executes := Suc (executes ?c), commits := Suc (commits ?c),
                                        committed := committed ?c @ pending ?c @ [ch], pending := []\<rparr>,
                     total_inserted := total_inserted w + (insert_count w + 1),
                     insert_count := 0\<rparr>"
      have step: "insert_chunk w ch = (True, ?w')"
        using True eq c0 by (intro insert_chunk_checkpoint) simp_all
      have later: "commit_ok ?c (Suc (commits ?c) + j)" if "int j < int ?S' div ?N" for j
        using issued [rule_format, of "Suc j"] that by simp
      have pre: "0 \<le> insert_count ?w'" "insert_count ?w' < batch_commit_size ?w'"
        "\<forall>j. int j < (insert_count ?w'
                 + int (successes (execute_ok (connection ?w')) (executes (connection ?w')) (length rest)))
                div batch_commit_size ?w'
             \<longrightarrow> commit_ok (connection ?w') (commits (connection ?w') + j)"
        using Cons.prems(1,2) later by simp_all
      from Cons.IH [OF pre, of "s + 1" f] obtain w1 where r:
        "insert_loop ?w' rest (s + 1) f = (w1, s + 1 + int ?S', f + int (length rest) - int ?S')"
        "insert_count w1 = int ?S' mod ?N"
        "int (commits (connection w1)) = int (Suc (commits ?c)) + int ?S' div ?N"
        "total_inserted w1 + insert_count w1 = total_inserted w + (insert_count w + 1) + int ?S'"
        "batch_commit_size w1 = ?N" "commit_ok (connection w1) = commit_ok ?c"
        by auto
      show ?thesis unfolding S using step r by (auto simp: arith)
    qed
  qed
qed

lemma commit_succeeds:
  assumes "commit_ok (connection w) (commits (connection w))"
  shows "commit w =
           Inr (w\<lparr>connection := (connection w)\<lparr>commits := Suc (commits (connection w)),
                                              committed := committed (connection w) @ pending (connection w),
                                              pending := []\<rparr>,
                  total_inserted := total_inserted w + insert_count w,
                  insert_count := 0\<rparr>)"
  using assms by (simp add: commit_def connection_commit_def)

lemma commit_raises:
  assumes "\<not> commit_ok (connection w) (commits (connection w))"
  shows "commit w =
           Inl (DatabaseError,
                w\<lparr>connection := (connection w)\<lparr>commits := Suc (commits (connection w)),
                                                 pending := []\<rparr>\<rparr>)"
  using assms by (simp add: commit_def connection_commit_def connection_rollback_def)

lemma insert_chunk_commits_issued:
  "commits (connection (snd (insert_chunk v ch))) =
     commits (connection v)
       + (if execute_ok (connection v) (executes (connection v))
             \<and> batch_commit_size v \<le> insert_count v + 1 then 1 else 0)"
  by (cases rule: insert_chunk_cases [of v])
     (simp_all add: insert_chunk_execute_fails insert_chunk_below_threshold
        insert_chunk_checkpoint insert_chunk_checkpoint_fails)

lemma insert_chunk_counter_after_success:
  "fst (insert_chunk v ch) \<Longrightarrow>
     insert_count (snd (insert_chunk v ch)) =
       (if batch_commit_size v \<le> insert_count v + 1 then 0 else insert_count v + 1)"
  by (cases rule: insert_chunk_cases [of v])
     (simp_all add: insert_chunk_execute_fails insert_chunk_below_threshold
        insert_chunk_checkpoint insert_chunk_checkpoint_fails)

text \<open>
  C2, as amended. On a writer with a positive threshold \<open>N\<close> and a counter at
  zero: after any prefix of the records during which every commit issued has
  succeeded, with \<open>S\<close> the number of successful writes so far, the loop has
  issued \<open>S div N\<close> commits and the counter stands at \<open>S mod N\<close>. So a commit is
  issued exactly when the successful writes reach a multiple of \<open>N\<close>, and the
  counter is then zero. When the final commit succeeds too, the batch returns
  the tallies \<open>S\<close> and \<open>n - S\<close>, having issued that one more commit exactly when
  \<open>S mod N\<close> is positive. And on any writer, whatever its commits do: a write
  whose insert raises reports failure, issues no commit and leaves the counter
  as it was; a write issues a commit exactly when its insert is accepted and
  brings the counter to the threshold; and after a write that reports success
  the counter is one more, or zero when the threshold was reached.
\<close>

theorem commit_after_every_nth_success:
  assumes "0 < batch_commit_size w" and "insert_count w = 0"
  shows
    "(\<forall>k \<le> length chunks.
        (\<forall>j. int j < int (successes (execute_ok (connection w)) (executes (connection w)) k)
                        div batch_commit_size w
              \<longrightarrow> commit_ok (connection w) (commits (connection w) + j))
        \<longrightarrow> (\<exists>w1.
          insert_loop w (take k chunks) 0 0 =
            (w1, int (successes (execute_ok (connection w)) (executes (connection w)) k),
                 int k - int (successes (execute_ok (connection w)) (executes (connection w)) k))
          \<and> insert_count w1 =
              int (successes (execute_ok (connection w)) (executes (connection w)) k)
                mod batch_commit_size w
          \<and> int (commits (connection w1)) =
              int (commits (connection w)) +
              int (successes (execute_ok (connection w)) (executes (connection w)) k)
                div batch_commit_size w))
     \<and> ((\<forall>j. int j <
               int (successes (execute_ok (connection w)) (executes (connection w)) (length chunks))
                 div batch_commit_size w +
               (if 0 < int (successes (execute_ok (connection w)) (executes (connection w)) (length chunks))
                         mod batch_commit_size w
                then 1 else 0)
             \<longrightarrow> commit_ok (connection w) (commits (connection w) + j))
        \<longrightarrow> (\<exists>w2.
          insert_chunks_batch w chunks =
            Inr (\<lparr> total = int (length chunks),
                   success = int (successes (execute_ok (connection w)) (executes (connection w)) (length chunks)),
                   failed = int (length chunks)
                     - int (successes (execute_ok (connection w)) (executes (connection w)) (length chunks)) \<rparr>,
                 w2)
          \<and> insert_count w2 = 0
          \<and> int (commits (connection w2)) =
              int (commits (connection w)) +
              int (successes (execute_ok (connection w)) (executes (connection w)) (length chunks))
                div batch_commit_size w +
              (if 0 < int (successes (execute_ok (connection w)) (executes (connection w)) (length chunks))
                        mod batch_commit_size w
               then 1 else 0)
          \<and> total_inserted w2 =
              total_inserted w +
              int (successes (execute_ok (connection w)) (executes (connection w)) (length chunks))))
     \<and> (\<not> execute_ok (connection v) (executes (connection v)) \<longrightarrow>
          \<not> fst (insert_chunk v ch)
          \<and> insert_count (snd (insert_chunk v ch)) = insert_count v
          \<and> commits (connection (snd (insert_chunk v ch))) = commits (connection v))
     \<and> commits (connection (snd (insert_chunk v ch))) =
          commits (connection v)
            + (if execute_ok (connection v) (executes (connection v))
                  \<and> batch_commit_size v \<le> insert_count v + 1 then 1 else 0)
     \<and> (fst (insert_chunk v ch) \<longrightarrow>
          insert_count (snd (insert_chunk v ch)) =
            (if batch_commit_size v \<le> insert_count v + 1 then 0 else insert_count v + 1))"
proof -
  let ?S = "successes (execute_ok (connection w)) (executes (connection w))"
  let ?N = "batch_commit_size w"
  let ?c = "connection w"
  have pre: "0 \<le> insert_count w" "insert_count w < ?N" using assms by simp_all
  have prefix: "\<exists>w1. insert_loop w (take k chunks) 0 0 = (w1, int (?S k), int k - int (?S k))
      \<and> insert_count w1 = int (?S k) mod ?N
      \<and> int (commits (connection w1)) = int (commits ?c) + int (?S k) div ?N"
    if "k \<le> length chunks"
      and h: "\<forall>j. int j < int (?S k) div ?N \<longrightarrow> commit_ok ?c (commits ?c + j)" for k
  proof -
    have len: "length (take k chunks) = k" using that(1) by simp
    have h': "\<forall>j. int j < (insert_count w + int (?S (length (take k chunks)))) div ?N
                \<longrightarrow> commit_ok ?c (commits ?c + j)"
      unfolding len using h assms(2) by simp
    from insert_loop_closed_form [OF pre h', of 0 0]
    show ?thesis unfolding len using assms(2) by auto
  qed
  have batch: "\<exists>w2. insert_chunks_batch w chunks =
          Inr (\<lparr> total = int (length chunks), success = int (?S (length chunks)),
                 failed = int (length chunks) - int (?S (length chunks)) \<rparr>, w2)
        \<and> insert_count w2 = 0
        \<and> int (commits (connection w2)) =
            int (commits ?c) + int (?S (length chunks)) div ?N +
            (if 0 < int (?S (length chunks)) mod ?N then 1 else 0)
        \<and> total_inserted w2 = total_inserted w + int (?S (length chunks))"
    if h: "\<forall>j. int j < int (?S (length chunks)) div ?N +
                 (if 0 < int (?S (length chunks)) mod ?N then 1 else 0)
              \<longrightarrow> commit_ok ?c (commits ?c + j)"
  proof -
    have h': "\<forall>j. int j < (insert_count w + int (?S (length chunks))) div ?N
                \<longrightarrow> commit_ok ?c (commits ?c + j)"
      using h assms(2) by simp
    from insert_loop_closed_form [OF pre h', of 0 0] assms(2)
    obtain w1 where
      loop: "insert_loop w chunks 0 0 =
               (w1, int (?S (length chunks)), int (length chunks) - int (?S (length chunks)))"
      and cnt: "insert_count w1 = int (?S (length chunks)) mod ?N"
      and cm: "int (commits (connection w1)) = int (commits ?c) + int (?S (length chunks)) div ?N"
      and tot: "total_inserted w1 + insert_count w1 = total_inserted w + int (?S (length chunks))"
      and ok: "commit_ok (connection w1) = commit_ok ?c"
      by auto
    show ?thesis
    proof (cases "0 < insert_count w1")
      case True
      have d: "0 \<le> int (?S (length chunks)) div ?N"
        using assms(1) by (simp add: pos_imp_zdiv_nonneg_iff)
      have idx: "commits (connection w1) = commits ?c + nat (int (?S (length chunks)) div ?N)"
        using cm d by linarith
      have "int (nat (int (?S (length chunks)) div ?N)) <
              int (?S (length chunks)) div ?N +
                (if 0 < int (?S (length chunks)) mod ?N then 1 else 0)"
        using True cnt d by simp
      with h have "commit_ok ?c (commits ?c + nat (int (?S (length chunks)) div ?N))" by blast
      then have c: "commit_ok (connection w1) (commits (connection w1))"
        unfolding ok idx .
      show ?thesis
        using True loop cnt cm tot
        by (simp add: insert_chunks_batch_def commit_succeeds [OF c])
    next
      case False
      have "0 \<le> int (?S (length chunks)) mod ?N" using assms(1) by simp
      with False cnt have z: "insert_count w1 = 0" by simp
      show ?thesis
        using False loop cnt cm tot z
        by (simp add: insert_chunks_batch_def)
    qed
  qed
  have rejected: "\<not> fst (insert_chunk v ch)
          \<and> insert_count (snd (insert_chunk v ch)) = insert_count v
          \<and> commits (connection (snd (insert_chunk v ch))) = commits (connection v)"
    if "\<not> execute_ok (connection v) (executes (connection v))"
    using insert_chunk_execute_fails [OF that, of ch] by simp
  show ?thesis
    using prefix batch rejected insert_chunk_commits_issued [of v ch]
      insert_chunk_counter_after_success [of v ch]
    by blast
qed

text \<open>
  2500 records with threshold 1000. All inserts accepted: no commit after 999
  records, one after 1000, one after 1999, two after 2000, two at the end of the
  loop with 500 writes uncommitted, and a third, final commit. Only record 1500
  rejected: the tallies are 2499 and 1, the loop ends after two commits with
  the counter at 499, and the final commit is the third. A server whose second
  commit raises: the first 1999 records still see one commit and a counter at
  999.
\<close>

theorem commit_after_every_nth_success_witness:
  "(\<exists>w1. insert_loop (new_writer 1000 (\<lambda>i. True) (\<lambda>i. True)) (take 999 (replicate 2500 row_a)) 0 0
           = (w1, 999, 0) \<and> insert_count w1 = 999 \<and> commits (connection w1) = 0)
   \<and> (\<exists>w1. insert_loop (new_writer 1000 (\<lambda>i. True) (\<lambda>i. True)) (take 1000 (replicate 2500 row_a)) 0 0
           = (w1, 1000, 0) \<and> insert_count w1 = 0 \<and> commits (connection w1) = 1)
   \<and> (\<exists>w1. insert_loop (new_writer 1000 (\<lambda>i. True) (\<lambda>i. True)) (take 1999 (replicate 2500 row_a)) 0 0
           = (w1, 1999, 0) \<and> insert_count w1 = 999 \<and> commits (connection w1) = 1)
   \<and> (\<exists>w1. insert_loop (new_writer 1000 (\<lambda>i. True) (\<lambda>i. True)) (take 2000 (replicate 2500 row_a)) 0 0
           = (w1, 2000, 0) \<and> insert_count w1 = 0 \<and> commits (connection w1) = 2)
   \<and> (\<exists>w1. insert_loop (new_writer 1000 (\<lambda>i. True) (\<lambda>i. True)) (take 2500 (replicate 2500 row_a)) 0 0
           = (w1, 2500, 0) \<and> insert_count w1 = 500 \<and> commits (connection w1) = 2)
   \<and> (\<exists>w2. insert_chunks_batch (new_writer 1000 (\<lambda>i. True) (\<lambda>i. True)) (replicate 2500 row_a)
           = Inr (\<lparr> total = 2500, success = 2500, failed = 0 \<rparr>, w2)
         \<and> insert_count w2 = 0 \<and> commits (connection w2) = 3 \<and> total_inserted w2 = 2500)
   \<and> (\<exists>w1. insert_loop (new_writer 1000 (\<lambda>i. i \<noteq> 1499) (\<lambda>i. True)) (take 2500 (replicate 2500 row_a)) 0 0
           = (w1, 2499, 1) \<and> insert_count w1 = 499 \<and> commits (connection w1) = 2)
   \<and> (\<exists>w2. insert_chunks_batch (new_writer 1000 (\<lambda>i. i \<noteq> 1499) (\<lambda>i. True)) (replicate 2500 row_a)
           = Inr (\<lparr> total = 2500, success = 2499, failed = 1 \<rparr>, w2)
         \<and> insert_count w2 = 0 \<and> commits (connection w2) = 3)
   \<and> (\<exists>w1. insert_loop (new_writer 1000 (\<lambda>i. True) (\<lambda>i. i \<noteq> 1)) (take 1999 (replicate 2500 row_a)) 0 0
           = (w1, 1999, 0) \<and> insert_count w1 = 999 \<and> commits (connection w1) = 1)"
proof -
  let ?all = "new_writer 1000 (\<lambda>i. True) (\<lambda>i. True)"
  let ?one = "new_writer 1000 (\<lambda>i. i \<noteq> 1499) (\<lambda>i. True)"
  let ?cm = "new_writer 1000 (\<lambda>i. True) (\<lambda>i. i \<noteq> 1)"
  have a: "0 < batch_commit_size ?all" "insert_count ?all = 0"
    by (simp_all add: new_writer_def)
  have b: "0 < batch_commit_size ?one" "insert_count ?one = 0"
    by (simp_all add: new_writer_def)
  have c: "0 < batch_commit_size ?cm" "insert_count ?cm = 0"
    by (simp_all add: new_writer_def)
  note A = commit_after_every_nth_success [OF a, where chunks = "replicate 2500 row_a" and v = ?all and ch = row_a]
  note B = commit_after_every_nth_success [OF b, where chunks = "replicate 2500 row_a" and v = ?one and ch = row_a]
  note C = commit_after_every_nth_success [OF c, where chunks = "replicate 2500 row_a" and v = ?cm and ch = row_a]
  have sa: "successes (execute_ok (connection ?all)) (executes (connection ?all)) k = k" for k
    by (simp add: new_writer_def successes_all)
  have sb: "successes (execute_ok (connection ?one)) (executes (connection ?one)) 2500 = 2499"
    by (simp add: new_writer_def successes_except)
  have sc: "successes (execute_ok (connection ?cm)) (executes (connection ?cm)) k = k" for k
    by (simp add: new_writer_def successes_all)
  have na: "batch_commit_size ?all = 1000" "commits (connection ?all) = 0" "total_inserted ?all = 0"
    "commit_ok (connection ?all) j" for j
    by (simp_all add: new_writer_def)
  have nb: "batch_commit_size ?one = 1000" "commits (connection ?one) = 0" "total_inserted ?one = 0"
    "commit_ok (connection ?one) j" for j
    by (simp_all add: new_writer_def)
  have nc: "batch_commit_size ?cm = 1000" "commits (connection ?cm) = 0"
    "commit_ok (connection ?cm) j = (j \<noteq> 1)" for j
    by (simp_all add: new_writer_def)
  from A [THEN conjunct1] have A1: "\<exists>w1. insert_loop ?all (take k (replicate 2500 row_a)) 0 0 = (w1, int k, 0)
      \<and> insert_count w1 = int k mod 1000 \<and> int (commits (connection w1)) = int k div 1000"
    if "k \<le> 2500" for k
    using that unfolding sa na(1-3) by (simp add: na(4))
  from A [THEN conjunct2, THEN conjunct1]
  have A2: "\<exists>w2. insert_chunks_batch ?all (replicate 2500 row_a)
           = Inr (\<lparr> total = 2500, success = 2500, failed = 0 \<rparr>, w2)
         \<and> insert_count w2 = 0 \<and> commits (connection w2) = 3 \<and> total_inserted w2 = 2500"
    unfolding sa na(1-3) by (simp add: na(4))
  from B [THEN conjunct1] have B1: "\<exists>w1. insert_loop ?one (take 2500 (replicate 2500 row_a)) 0 0 = (w1, 2499, 1)
      \<and> insert_count w1 = 499 \<and> commits (connection w1) = 2"
    unfolding nb(1-3) using sb by (auto simp: nb(4) dest!: spec [of _ 2500])
  from B [THEN conjunct2, THEN conjunct1]
  have B2: "\<exists>w2. insert_chunks_batch ?one (replicate 2500 row_a)
           = Inr (\<lparr> total = 2500, success = 2499, failed = 1 \<rparr>, w2)
         \<and> insert_count w2 = 0 \<and> commits (connection w2) = 3"
    unfolding nb(1-3) using sb by (auto simp: nb(4))
  have hc: "\<forall>j. int j < int (successes (execute_ok (connection ?cm)) (executes (connection ?cm)) 1999)
                        div batch_commit_size ?cm
              \<longrightarrow> commit_ok (connection ?cm) (commits (connection ?cm) + j)"
    unfolding sc by (simp add: new_writer_def)
  have "1999 \<le> length (replicate 2500 row_a)" by simp
  from C [THEN conjunct1, rule_format, OF this hc [rule_format]]
  have C1: "\<exists>w1. insert_loop ?cm (take 1999 (replicate 2500 row_a)) 0 0 = (w1, 1999, 0)
      \<and> insert_count w1 = 999 \<and> commits (connection w1) = 1"
    unfolding sc nc(1-2) by auto
  show ?thesis
    using A1 [of 999] A1 [of 1000] A1 [of 1999] A1 [of 2000] A1 [of 2500] A2 B1 B2 C1
    by simp
qed

text \<open>
  C2 as stated fails when a checkpoint commit raises. Threshold 2, the first
  commit raises: the write of \<open>a\<close> succeeds and the counter is 1; the insert of
  \<open>b\<close> is accepted, the counter becomes 2, the checkpoint commit raises and the
  write of \<open>b\<close> reports failure. A failed write has advanced the counter, a
  commit was issued after one successful write, and the counter is not zero
  after it.
\<close>

theorem failed_checkpoint_advances_counter:
  "batch_commit_size balky_writer = 2
   \<and> insert_count balky_writer = 0
   \<and> commits (connection balky_writer) = 0
   \<and> insert_chunk balky_writer row_a = (True, balky_one)
   \<and> insert_count balky_one = 1
   \<and> commits (connection balky_one) = 0
   \<and> insert_chunk balky_one row_b = (False, balky_two)
   \<and> insert_count balky_two = 2
   \<and> commits (connection balky_two) = 1
   \<and> insert_loop balky_writer [row_a, row_b] 0 0 = (balky_two, 1, 1)"
  by (simp add: database_writer_defs balky_writer_def balky_one_def balky_two_def)

subsection \<open>A rollback discards earlier writes of the segment\<close>


lemma lossy_batch:
  "insert_chunks_batch lossy_writer [row_a, row_b, row_c] =
     Inr (\<lparr> total = 3, success = 2, failed = 1 \<rparr>, lossy_done)"
  by (simp add: database_writer_defs lossy_writer_def lossy_done_def)




text \<open>
  C7 at the same input: the final commit adds the counter, 2, to
  \<open>total_inserted\<close>, while the transaction it commits holds one row.
\<close>

theorem total_inserted_counts_rolled_back_rows:
  "insert_chunks_batch lossy_writer [row_a, row_b, row_c] =
     Inr (\<lparr> total = 3, success = 2, failed = 1 \<rparr>, lossy_done)
   \<and> get_statistics lossy_done = (2, 1)
   \<and> committed (connection lossy_done) = [row_c]
   \<and> length (committed (connection lossy_done)) = 1"
  using lossy_batch by (simp add: get_statistics_def lossy_done_def)

subsection \<open>What every operation keeps\<close>



lemma insert_chunk_pending_counted:
  "pending_counted w \<Longrightarrow> pending_counted (snd (insert_chunk w ch))"
  by (cases rule: insert_chunk_cases [of w])
     (simp_all add: insert_chunk_execute_fails insert_chunk_below_threshold
        insert_chunk_checkpoint insert_chunk_checkpoint_fails pending_counted_def)

lemma insert_loop_step:
  "insert_loop w (ch # rest) s f =
     (if fst (insert_chunk w ch) then insert_loop (snd (insert_chunk w ch)) rest (s + 1) f
      else insert_loop (snd (insert_chunk w ch)) rest s (f + 1))"
  by (cases "insert_chunk w ch") simp



lemma insert_loop_pending_counted:
  "pending_counted w \<Longrightarrow> pending_counted (fst (insert_loop w chunks s f))"
  by (induction chunks arbitrary: w s f)
     (simp_all add: insert_loop_step insert_chunk_pending_counted del: insert_loop.simps(2))




text \<open>The batch in terms of the loop and the final commit.\<close>

lemma insert_chunks_batch_eq:
  "insert_chunks_batch w chunks =
     (if 0 < insert_count (fst (insert_loop w chunks 0 0))
      then (case commit (fst (insert_loop w chunks 0 0)) of
              Inl (e, w2) \<Rightarrow> Inl (e, w2)
            | Inr w2 \<Rightarrow>
                Inr (\<lparr> total = int (length chunks),
                       success = fst (snd (insert_loop w chunks 0 0)),
                       failed = snd (snd (insert_loop w chunks 0 0)) \<rparr>, w2))
      else Inr (\<lparr> total = int (length chunks),
                  success = fst (snd (insert_loop w chunks 0 0)),
                  failed = snd (snd (insert_loop w chunks 0 0)) \<rparr>,
                fst (insert_loop w chunks 0 0)))"
  by (cases "insert_loop w chunks 0 0")
     (auto simp: insert_chunks_batch_def Let_def split: sum.splits)

lemma commit_cases:
  "commit w = Inr w2 \<Longrightarrow>
     commit_ok (connection w) (commits (connection w))
     \<and> pending (connection w2) = [] \<and> insert_count w2 = 0
     \<and> committed (connection w2) = committed (connection w) @ pending (connection w)
     \<and> commits (connection w2) = Suc (commits (connection w))
     \<and> closed (connection w2) = closed (connection w)"
  "commit w = Inl (e, w2) \<Longrightarrow>
     \<not> commit_ok (connection w) (commits (connection w))
     \<and> e = DatabaseError
     \<and> pending (connection w2) = []
     \<and> committed (connection w2) = committed (connection w)
     \<and> commits (connection w2) = Suc (commits (connection w))
     \<and> closed (connection w2) = closed (connection w)"
  by (cases "commit_ok (connection w) (commits (connection w))";
      auto simp: commit_succeeds commit_raises)+

lemma insert_chunks_batch_pending_counted:
  assumes "pending_counted w"
  shows "insert_chunks_batch w chunks = Inr (st, w2) \<Longrightarrow> pending_counted w2"
    and "insert_chunks_batch w chunks = Inl (e, w2) \<Longrightarrow> pending_counted w2"
proof -
  let ?w1 = "fst (insert_loop w chunks 0 0)"
  have inv: "pending_counted ?w1" using assms by (rule insert_loop_pending_counted)
  show "pending_counted w2" if r: "insert_chunks_batch w chunks = Inr (st, w2)"
  proof (cases "0 < insert_count ?w1")
    case True
    with r have "commit ?w1 = Inr w2" by (auto simp: insert_chunks_batch_eq split: sum.splits)
    from commit_cases(1) [OF this] show ?thesis by (simp add: pending_counted_def)
  next
    case False
    with r inv show ?thesis by (simp add: insert_chunks_batch_eq)
  qed
  show "pending_counted w2" if r: "insert_chunks_batch w chunks = Inl (e, w2)"
  proof -
    from r have pos: "0 < insert_count ?w1" and c: "commit ?w1 = Inl (e, w2)"
      by (auto simp: insert_chunks_batch_eq split: sum.splits if_splits)
    from c have "insert_count w2 = insert_count ?w1"
      by (auto simp: commit_def split: sum.splits)
    with pos commit_cases(2) [OF c] show ?thesis by (simp add: pending_counted_def)
  qed
qed



lemma open_writer_reached:
  "insert_chunk (new_writer 1000 (\<lambda>i. True) (\<lambda>i. True)) row_a = (True, open_writer)"
  by (simp add: database_writer_defs open_writer_def)






lemma all_succeed_tallies:
  assumes "all_succeed w ys"
  shows "snd (insert_loop w ys s f) = (s + int (length ys), f)"
  using assms
proof (induction ys arbitrary: w s f)
  case Nil
  then show ?case by simp
next
  case (Cons ch rest)
  from Cons.prems have ok: "fst (insert_chunk w ch)"
    and rest: "all_succeed (snd (insert_chunk w ch)) rest" by simp_all
  show ?case
    using Cons.IH [OF rest, of "s + 1" f] ok
    by (simp add: insert_loop_step del: insert_loop.simps(2))
qed










lemma insert_chunks_batch_raises:
  assumes "insert_chunks_batch w chunks = Inl (e, w2)"
  shows "0 < insert_count (fst (insert_loop w chunks 0 0))"
    and "\<not> commit_ok (connection (fst (insert_loop w chunks 0 0)))
             (commits (connection (fst (insert_loop w chunks 0 0))))"
proof -
  from assms show pos: "0 < insert_count (fst (insert_loop w chunks 0 0))"
    by (auto simp: insert_chunks_batch_eq split: if_splits)
  with assms have "commit (fst (insert_loop w chunks 0 0)) = Inl (e, w2)"
    by (auto simp: insert_chunks_batch_eq split: sum.splits)
  from commit_cases(2) [OF this]
  show "\<not> commit_ok (connection (fst (insert_loop w chunks 0 0)))
             (commits (connection (fst (insert_loop w chunks 0 0))))" by simp
qed








lemma stubborn_batch:
  "insert_chunks_batch stubborn_writer [row_a, row_b] =
     Inr (\<lparr> total = 2, success = 1, failed = 1 \<rparr>, stubborn_done)"
  by (simp add: database_writer_defs stubborn_writer_def stubborn_done_def)

text \<open>
  C10 as stated fails for a checkpoint. Threshold 1, the first commit raises: the
  insert of \<open>a\<close> is accepted, the checkpoint commit raises inside the \<open>try\<close>
  block of \<open>insert_chunk\<close>, which returns False; the batch goes on with \<open>b\<close> and
  returns its tallies with one failure.
\<close>

theorem checkpoint_commit_failure_is_tallied:
  "execute_ok (connection stubborn_writer) (executes (connection stubborn_writer))
   \<and> \<not> commit_ok (connection stubborn_writer) (commits (connection stubborn_writer))
   \<and> \<not> fst (insert_chunk stubborn_writer row_a)
   \<and> insert_chunks_batch stubborn_writer [row_a, row_b] =
       Inr (\<lparr> total = 2, success = 1, failed = 1 \<rparr>, stubborn_done)
   \<and> total_failed stubborn_done = 1
   \<and> committed (connection stubborn_done) = [row_b]"
  using stubborn_batch
  by (simp add: database_writer_defs stubborn_writer_def stubborn_done_def)

text \<open>
  C10, as amended. A commit that raises in the final commit of the batch or in
  \<open>disconnect\<close> is rolled back and raised again to the caller (and the
  connection is not closed); the batch raises in no other case. A commit that
  raises at a checkpoint is caught by \<open>insert_chunk\<close>: rollback, one more failure,
  False, the counter kept, and the loop goes on.
\<close>

theorem commit_failure_propagation:
  "(0 < insert_count (fst (insert_loop w chunks 0 0))
      \<and> \<not> commit_ok (connection (fst (insert_loop w chunks 0 0)))
             (commits (connection (fst (insert_loop w chunks 0 0))))
    \<longrightarrow> (\<exists>w2. insert_chunks_batch w chunks = Inl (DatabaseError, w2)
           \<and> pending (connection w2) = []
           \<and> committed (connection w2) = committed (connection (fst (insert_loop w chunks 0 0)))))
   \<and> (\<forall>e w2. insert_chunks_batch w chunks = Inl (e, w2) \<longrightarrow>
         0 < insert_count (fst (insert_loop w chunks 0 0))
         \<and> \<not> commit_ok (connection (fst (insert_loop w chunks 0 0)))
                (commits (connection (fst (insert_loop w chunks 0 0)))))
   \<and> (0 < insert_count w \<and> \<not> commit_ok (connection w) (commits (connection w))
    \<longrightarrow> (\<exists>w2. disconnect w = Inl (DatabaseError, w2)
           \<and> pending (connection w2) = []
           \<and> closed (connection w2) = closed (connection w)
           \<and> committed (connection w2) = committed (connection w)))
   \<and> (execute_ok (connection w) (executes (connection w))
       \<and> batch_commit_size w \<le> insert_count w + 1
       \<and> \<not> commit_ok (connection w) (commits (connection w))
    \<longrightarrow> (\<exists>w'. insert_chunk w ch = (False, w')
           \<and> pending (connection w') = []
           \<and> committed (connection w') = committed (connection w)
           \<and> total_failed w' = total_failed w + 1
           \<and> insert_count w' = insert_count w + 1
           \<and> insert_loop w (ch # rest) s f = insert_loop w' rest s (f + 1)))"
proof -
  let ?w1 = "fst (insert_loop w chunks 0 0)"
  have final: "\<exists>w2. insert_chunks_batch w chunks = Inl (DatabaseError, w2)
           \<and> pending (connection w2) = []
           \<and> committed (connection w2) = committed (connection ?w1)"
    if "0 < insert_count ?w1" "\<not> commit_ok (connection ?w1) (commits (connection ?w1))"
    using that by (simp add: insert_chunks_batch_eq commit_raises)
  have only_final: "0 < insert_count ?w1 \<and> \<not> commit_ok (connection ?w1) (commits (connection ?w1))"
    if "insert_chunks_batch w chunks = Inl (e, w2)" for e w2
    using insert_chunks_batch_raises [OF that] by simp
  have disc: "\<exists>w2. disconnect w = Inl (DatabaseError, w2)
           \<and> pending (connection w2) = []
           \<and> closed (connection w2) = closed (connection w)
           \<and> committed (connection w2) = committed (connection w)"
    if "0 < insert_count w" "\<not> commit_ok (connection w) (commits (connection w))"
    using that by (simp add: disconnect_def commit_raises)
  have checkpoint: "\<exists>w'. insert_chunk w ch = (False, w')
           \<and> pending (connection w') = []
           \<and> committed (connection w') = committed (connection w)
           \<and> total_failed w' = total_failed w + 1
           \<and> insert_count w' = insert_count w + 1
           \<and> insert_loop w (ch # rest) s f = insert_loop w' rest s (f + 1)"
    if "execute_ok (connection w) (executes (connection w))"
      "batch_commit_size w \<le> insert_count w + 1"
      "\<not> commit_ok (connection w) (commits (connection w))"
    using insert_chunk_checkpoint_fails [OF that, of ch] by simp
  show ?thesis using final only_final disc checkpoint by blast
qed

lemma refusing_open_reached:
  "insert_loop (new_writer 1000 (\<lambda>i. True) (\<lambda>i. False)) [row_a] 0 0 = (refusing_open, 1, 0)"
  by (simp add: database_writer_defs refusing_open_def)

text \<open>
  A server that refuses every commit: the batch of one row raises, and so does the
  disconnect of the writer holding that row. A server whose first commit raises,
  threshold 1: the first insert returns False and the loop goes on.
\<close>

theorem commit_failure_propagation_witness:
  "insert_loop (new_writer 1000 (\<lambda>i. True) (\<lambda>i. False)) [row_a] 0 0 = (refusing_open, 1, 0)
   \<and> (\<exists>w2. insert_chunks_batch (new_writer 1000 (\<lambda>i. True) (\<lambda>i. False)) [row_a]
              = Inl (DatabaseError, w2)
            \<and> pending (connection w2) = [] \<and> committed (connection w2) = [])
   \<and> (\<exists>w2. disconnect refusing_open = Inl (DatabaseError, w2)
            \<and> pending (connection w2) = [] \<and> closed (connection w2) = False)
   \<and> (\<exists>w'. insert_chunk stubborn_writer row_a = (False, w')
            \<and> total_failed w' = 1 \<and> insert_count w' = 1
            \<and> insert_loop stubborn_writer [row_a, row_b] 0 0 = insert_loop w' [row_b] 0 1)"
proof -
  let ?r = "new_writer 1000 (\<lambda>i. True) (\<lambda>i. False)"
  have r1: "fst (insert_loop ?r [row_a] 0 0) = refusing_open"
    using refusing_open_reached by simp
  have r2: "0 < insert_count refusing_open"
    "\<not> commit_ok (connection refusing_open) (commits (connection refusing_open))"
    "committed (connection refusing_open) = []" "closed (connection refusing_open) = False"
    by (simp_all add: refusing_open_def)
  have s: "execute_ok (connection stubborn_writer) (executes (connection stubborn_writer))"
    "batch_commit_size stubborn_writer \<le> insert_count stubborn_writer + 1"
    "\<not> commit_ok (connection stubborn_writer) (commits (connection stubborn_writer))"
    "total_failed stubborn_writer = 0" "insert_count stubborn_writer = 0"
    by (simp_all add: stubborn_writer_def new_writer_def)
  from commit_failure_propagation [where w = ?r and chunks = "[row_a]" and ch = row_a
      and rest = "[]" and s = 0 and f = 0] r1 r2
  have 1: "\<exists>w2. insert_chunks_batch ?r [row_a] = Inl (DatabaseError, w2)
            \<and> pending (connection w2) = [] \<and> committed (connection w2) = []"
    by simp
  from commit_failure_propagation [where w = refusing_open and chunks = "[]" and ch = row_a
      and rest = "[]" and s = 0 and f = 0] r2
  have 2: "\<exists>w2. disconnect refusing_open = Inl (DatabaseError, w2)
            \<and> pending (connection w2) = [] \<and> closed (connection w2) = False"
    by auto
  from commit_failure_propagation [where w = stubborn_writer and chunks = "[]" and ch = row_a
      and rest = "[row_b]" and s = 0 and f = 0] s
  have 3: "\<exists>w'. insert_chunk stubborn_writer row_a = (False, w')
            \<and> total_failed w' = 1 \<and> insert_count w' = 1
            \<and> insert_loop stubborn_writer [row_a, row_b] 0 0 = insert_loop w' [row_b] 0 1"
    by (auto simp del: insert_loop.simps(2))
  show ?thesis using refusing_open_reached 1 2 3 by blast
qed

end
